theory Spec2Isabelle
  imports Main "HOL-Library.Sublist"
begin

text \<open>
  A model of the document chunking (\<^verbatim>\<open>utils.py\<close>), the vector-store pipeline
  (\<^verbatim>\<open>rag_pipeline.py\<close>), the prompt templates (\<^verbatim>\<open>prompt_templates.py\<close>) and the
  generation operations (\<^verbatim>\<open>generation_chains.py\<close>) of the job-application assistant,
  with the properties of the specification proved or refuted on it. Every function of
  the model keeps the name of the Python function it is translated from.
\<close>

section \<open>Python strings\<close>

text \<open>
  A Python \<^verbatim>\<open>str\<close> is a sequence of Unicode code points and \<^verbatim>\<open>len\<close> counts code
  points, so a string is modelled as a list of code-point numbers. \<open>py\<close> turns an
  ASCII literal into such a list.
\<close>

type_synonym codepoint = nat
type_synonym pystr = "codepoint list"

definition py :: "string \<Rightarrow> pystr" where
  "py s = map of_char s"

text \<open>
  The whitespace class: \<^verbatim>\<open>\s\<close> of the \<^verbatim>\<open>re\<close> module on \<^verbatim>\<open>str\<close> patterns and the
  characters removed by \<^verbatim>\<open>str.strip()\<close> and separated on by \<^verbatim>\<open>str.split()\<close> are the
  same set in CPython (tab to carriage return, the four separators U+001C to U+001F,
  space, U+0085, U+00A0, U+1680, U+2000 to U+200A, U+2028, U+2029, U+202F, U+205F, U+3000).
\<close>

definition is_space :: "codepoint \<Rightarrow> bool" where
  "is_space c \<longleftrightarrow>
     (9 \<le> c \<and> c \<le> 13) \<or> (28 \<le> c \<and> c \<le> 32) \<or> c = 133 \<or> c = 160 \<or> c = 5760 \<or>
     (8192 \<le> c \<and> c \<le> 8202) \<or> c = 8232 \<or> c = 8233 \<or> c = 8239 \<or> c = 8287 \<or> c = 12288"

text \<open>
  \<^verbatim>\<open>re.sub(p+, rep, text)\<close> for a one-character class \<open>p\<close>: every maximal run of
  characters in the class is replaced by \<open>rep\<close>.
\<close>

function sub_runs :: "(codepoint \<Rightarrow> bool) \<Rightarrow> pystr \<Rightarrow> pystr \<Rightarrow> pystr" where
  "sub_runs p rep [] = []"
| "sub_runs p rep (c # cs) =
     (if p c then rep @ sub_runs p rep (dropWhile p cs) else c # sub_runs p rep cs)"
  by pat_completeness auto
termination
  by (relation "measure (\<lambda>(p, rep, cs). length cs)")
     (auto simp: length_dropWhile_le less_Suc_eq_le)

text \<open>\<^verbatim>\<open>text.strip()\<close>: leading and trailing whitespace removed.\<close>

definition strip :: "pystr \<Rightarrow> pystr" where
  "strip s = rev (dropWhile is_space (rev (dropWhile is_space s)))"

text \<open>\<^verbatim>\<open>sep.join(parts)\<close>.\<close>

fun join :: "pystr \<Rightarrow> pystr list \<Rightarrow> pystr" where
  "join sep [] = []"
| "join sep [x] = x"
| "join sep (x # y # ys) = x @ sep @ join sep (y # ys)"

section \<open>utils.py: clean_text\<close>

text \<open>
  The character class \<^verbatim>\<open>[a-zA-Z0-9\s.,!?-]\<close> whose complement the second
  substitution of \<^verbatim>\<open>clean_text\<close> deletes: ASCII letters and digits, whitespace, and
  full stop (46), comma (44), exclamation mark (33), question mark (63), hyphen (45).
\<close>

definition is_kept :: "codepoint \<Rightarrow> bool" where
  "is_kept c \<longleftrightarrow>
     (97 \<le> c \<and> c \<le> 122) \<or> (65 \<le> c \<and> c \<le> 90) \<or> (48 \<le> c \<and> c \<le> 57) \<or> is_space c \<or>
     c = 46 \<or> c = 44 \<or> c = 33 \<or> c = 63 \<or> c = 45"

text \<open>
  \<^verbatim>\<open>
  def clean_text(text):
      if not text: return ""
      text = re.sub(r'\n+', ' ', text)
      text = re.sub(r'[^a-zA-Z0-9\s.,!?-]', '', text)
      text = re.sub(r'\s+', ' ', text)
      return text.strip()
  \<close>
\<close>

definition clean_text :: "pystr \<Rightarrow> pystr" where
  "clean_text text =
     (if text = [] then []
      else let text1 = sub_runs (\<lambda>c. c = 10) [32] text;
               text2 = filter is_kept text1;
               text3 = sub_runs is_space [32] text2
           in strip text3)"

text \<open>
  Two predicates used to describe the output of \<open>clean_text\<close>: no two whitespace
  characters are adjacent, and every whitespace character is a plain space.
\<close>

fun adj_free :: "pystr \<Rightarrow> bool" where
  "adj_free (a # b # cs) = (\<not> (is_space a \<and> is_space b) \<and> adj_free (b # cs))"
| "adj_free _ = True"

definition collapsed :: "pystr \<Rightarrow> bool" where
  "collapsed xs \<longleftrightarrow> adj_free xs \<and> (\<forall>c \<in> set xs. is_space c \<longrightarrow> c = 32)"

section \<open>utils.py: chunk_text\<close>

text \<open>
  \<^verbatim>\<open>re.split(r'(?<=[.!?])\s+', text)\<close>: the text is cut at every maximal run of
  whitespace that directly follows a full stop (46), an exclamation mark (33) or a
  question mark (63); the run is dropped. The last piece is returned also when it is
  empty, as \<^verbatim>\<open>re.split\<close> does.
\<close>

definition is_sentence_end :: "codepoint \<Rightarrow> bool" where
  "is_sentence_end c \<longleftrightarrow> c = 46 \<or> c = 33 \<or> c = 63"

function split_sentences_from :: "pystr \<Rightarrow> pystr \<Rightarrow> pystr list" where
  "split_sentences_from cur [] = [cur]"
| "split_sentences_from cur (c # cs) =
     (if is_sentence_end c \<and> cs \<noteq> [] \<and> is_space (hd cs)
      then (cur @ [c]) # split_sentences_from [] (dropWhile is_space cs)
      else split_sentences_from (cur @ [c]) cs)"
  by pat_completeness auto
termination
  by (relation "measure (\<lambda>(cur, cs). length cs)")
     (auto simp: length_dropWhile_le less_Suc_eq_le)

definition split_sentences :: "pystr \<Rightarrow> pystr list" where
  "split_sentences text = split_sentences_from [] text"

text \<open>
  The overlap loop of \<^verbatim>\<open>chunk_text\<close>, over the reversed current chunk:
  \<^verbatim>\<open>
  for s in reversed(current_chunk):
      if overlap_len + len(s) < overlap:
          overlap_buffer.insert(0, s); overlap_len += len(s)
      else: break
  \<close>
\<close>

fun overlap_loop :: "int \<Rightarrow> pystr list \<Rightarrow> pystr list \<times> int \<Rightarrow> pystr list \<times> int" where
  "overlap_loop overlap [] (overlap_buffer, overlap_len) = (overlap_buffer, overlap_len)"
| "overlap_loop overlap (s # rest) (overlap_buffer, overlap_len) =
     (if overlap_len + int (length s) < overlap
      then overlap_loop overlap rest (s # overlap_buffer, overlap_len + int (length s))
      else (overlap_buffer, overlap_len))"

text \<open>
  The main loop over the sentences; the state is
  \<open>(chunks, current_chunk, current_length)\<close>.
  \<^verbatim>\<open>
  for sentence in sentences:
      sentence_len = len(sentence)
      if current_length + sentence_len > chunk_size and current_chunk:
          chunks.append(" ".join(current_chunk))
          (overlap loop)
          current_chunk = overlap_buffer; current_length = overlap_len
      current_chunk.append(sentence); current_length += sentence_len
  \<close>
\<close>

fun chunk_loop ::
  "int \<Rightarrow> int \<Rightarrow> pystr list \<Rightarrow> pystr list \<times> pystr list \<times> int \<Rightarrow> pystr list \<times> pystr list \<times> int"
where
  "chunk_loop chunk_size overlap [] st = st"
| "chunk_loop chunk_size overlap (sentence # rest) (chunks, current_chunk, current_length) =
     (let sentence_len = int (length sentence) in
      if current_length + sentence_len > chunk_size \<and> current_chunk \<noteq> [] then
        (case overlap_loop overlap (rev current_chunk) ([], 0) of
           (overlap_buffer, overlap_len) \<Rightarrow>
             chunk_loop chunk_size overlap rest
               (chunks @ [join [32] current_chunk], overlap_buffer @ [sentence],
                overlap_len + sentence_len))
      else
        chunk_loop chunk_size overlap rest
          (chunks, current_chunk @ [sentence], current_length + sentence_len))"

text \<open>
  \<^verbatim>\<open>
  def chunk_text(text, chunk_size=500, overlap=50):
      if not text: return []
      sentences = re.split(r'(?<=[.!?])\s+', text)
      (main loop)
      if current_chunk: chunks.append(" ".join(current_chunk))
      return chunks
  \<close>
  No statement of the function can raise on a string and two integers, so the model
  returns the list of chunks itself.
\<close>

definition chunk_text :: "pystr \<Rightarrow> int \<Rightarrow> int \<Rightarrow> pystr list" where
  "chunk_text text chunk_size overlap =
     (if text = [] then []
      else case chunk_loop chunk_size overlap (split_sentences text) ([], [], 0) of
             (chunks, current_chunk, current_length) \<Rightarrow>
               if current_chunk \<noteq> [] then chunks @ [join [32] current_chunk] else chunks)"

text \<open>
  The same two loops, recording for every chunk the list of its sentences in place of
  the joined string. \<open>chunk_text\<close> is the image of \<open>chunk_groups\<close> under
  \<open>join\<close> (lemma \<open>chunk_text_groups\<close>); the properties of the chunking are proved
  on the sentence lists.
\<close>

fun group_loop ::
  "int \<Rightarrow> int \<Rightarrow> pystr list \<Rightarrow> pystr list list \<times> pystr list \<times> int \<Rightarrow>
   pystr list list \<times> pystr list \<times> int"
where
  "group_loop chunk_size overlap [] st = st"
| "group_loop chunk_size overlap (sentence # rest) (groups, current_chunk, current_length) =
     (let sentence_len = int (length sentence) in
      if current_length + sentence_len > chunk_size \<and> current_chunk \<noteq> [] then
        (case overlap_loop overlap (rev current_chunk) ([], 0) of
           (overlap_buffer, overlap_len) \<Rightarrow>
             group_loop chunk_size overlap rest
               (groups @ [current_chunk], overlap_buffer @ [sentence],
                overlap_len + sentence_len))
      else
        group_loop chunk_size overlap rest
          (groups, current_chunk @ [sentence], current_length + sentence_len))"

definition chunk_groups :: "pystr \<Rightarrow> int \<Rightarrow> int \<Rightarrow> pystr list list" where
  "chunk_groups text chunk_size overlap =
     (if text = [] then []
      else case group_loop chunk_size overlap (split_sentences text) ([], [], 0) of
             (groups, current_chunk, current_length) \<Rightarrow>
               if current_chunk \<noteq> [] then groups @ [current_chunk] else groups)"

definition overlap_buffer :: "int \<Rightarrow> pystr list \<Rightarrow> pystr list" where
  "overlap_buffer overlap current_chunk = fst (overlap_loop overlap (rev current_chunk) ([], 0))"

definition total_len :: "pystr list \<Rightarrow> int" where
  "total_len ss = (\<Sum>s\<leftarrow>ss. int (length s))"

text \<open>
  One iteration of \<open>group_loop\<close>, and the invariant of the loop: \<open>seen\<close> is the list
  of sentences consumed so far.
\<close>

definition group_step :: "int \<Rightarrow> int \<Rightarrow> pystr \<Rightarrow> pystr list list \<times> pystr list \<times> int \<Rightarrow> pystr list list \<times> pystr list \<times> int" where
  "group_step cs ov s st = (case st of (gs, cur, n) \<Rightarrow>
     if n + int (length s) > cs \<and> cur \<noteq> []
     then (gs @ [cur], overlap_buffer ov cur @ [s], total_len (overlap_buffer ov cur) + int (length s))
     else (gs, cur @ [s], n + int (length s)))"

definition seg_bound :: "int \<Rightarrow> int \<Rightarrow> pystr list \<Rightarrow> bool" where
  "seg_bound cs ov g \<longleftrightarrow> total_len g \<le> cs \<or> butlast g = [] \<or> total_len (butlast g) < ov"

definition linked :: "int \<Rightarrow> pystr list \<Rightarrow> pystr list \<Rightarrow> pystr list \<Rightarrow> bool" where
  "linked ov seen a b \<longleftrightarrow>
     (\<exists>new. new \<noteq> [] \<and> b = overlap_buffer ov a @ new \<and> sublist (a @ new) seen)"

definition group_inv :: "int \<Rightarrow> int \<Rightarrow> pystr list \<Rightarrow> pystr list list \<times> pystr list \<times> int \<Rightarrow> bool" where
  "group_inv cs ov seen st = (case st of (gs, cur, n) \<Rightarrow>
     n = total_len cur \<and> suffix cur seen \<and> (cur = [] \<longrightarrow> gs = [] \<and> seen = []) \<and>
     (\<forall>g \<in> set gs. g \<noteq> [] \<and> sublist g seen \<and> seg_bound cs ov g) \<and>
     seg_bound cs ov cur \<and>
     successively (linked ov seen) gs \<and>
     (gs \<noteq> [] \<longrightarrow> (\<exists>new. new \<noteq> [] \<and> cur = overlap_buffer ov (last gs) @ new \<and>
                        suffix (last gs @ new) seen)))"

section \<open>utils.py: extract_metadata and create_document_chunks\<close>

text \<open>
  A document is a dictionary from keys to strings; \<^verbatim>\<open>doc.get(key, default)\<close> is
  \<open>doc_get\<close>.
\<close>

type_synonym document = "string \<rightharpoonup> pystr"

definition doc_get :: "document \<Rightarrow> string \<Rightarrow> pystr \<Rightarrow> pystr" where
  "doc_get doc key dflt = (case doc key of None \<Rightarrow> dflt | Some v \<Rightarrow> v)"

text \<open>\<^verbatim>\<open>content.split()\<close>: the maximal runs of characters that are not whitespace.\<close>

function py_split :: "pystr \<Rightarrow> pystr list" where
  "py_split s =
     (case dropWhile is_space s of
        [] \<Rightarrow> []
      | c # cs \<Rightarrow> (c # takeWhile (\<lambda>x. \<not> is_space x) cs) # py_split (dropWhile (\<lambda>x. \<not> is_space x) cs))"
  by pat_completeness auto
termination
proof (relation "measure length")
  fix s :: pystr and c cs
  assume a: "dropWhile is_space s = c # cs"
  have "length (dropWhile (\<lambda>x. \<not> is_space x) cs) \<le> length cs" by (rule length_dropWhile_le)
  moreover have "length (c # cs) \<le> length s" using length_dropWhile_le[of is_space s] a by simp
  ultimately show "(dropWhile (\<lambda>x. \<not> is_space x) cs, s) \<in> measure length" by simp
qed simp

text \<open>
  The metadata dictionary of \<^verbatim>\<open>extract_metadata\<close>, and the copy of it that
  \<^verbatim>\<open>create_document_chunks\<close> extends with \<^verbatim>\<open>chunk_index\<close>. The time stamp
  \<^verbatim>\<open>datetime.now().isoformat()\<close> is the parameter \<open>now\<close>.
\<close>

record doc_metadata =
  filename :: pystr
  file_type :: pystr
  date_processed :: pystr
  word_count :: nat

record chunk_metadata = doc_metadata +
  chunk_index :: nat

text \<open>A chunk dictionary; its key \<^verbatim>\<open>'text'\<close> is the field \<open>text_field\<close>.\<close>

record chunk =
  text_field :: pystr
  metadata :: chunk_metadata

definition extract_metadata :: "pystr \<Rightarrow> document \<Rightarrow> doc_metadata" where
  "extract_metadata now doc =
     (let content = doc_get doc ''content'' []
      in \<lparr> filename = doc_get doc ''filename'' (py ''unknown''),
           file_type = doc_get doc ''file_type'' (py ''unknown''),
           date_processed = now,
           word_count = (if content \<noteq> [] then length (py_split content) else 0) \<rparr>)"

text \<open>
  \<^verbatim>\<open>
  def create_document_chunks(doc):
      raw_content = doc.get('content', '')
      if not raw_content: return []
      cleaned_content = clean_text(raw_content)
      metadata = extract_metadata(doc)
      text_chunks = chunk_text(cleaned_content)
      doc_chunks = []
      for i, chunk in enumerate(text_chunks):
          chunk_metadata = metadata.copy()
          chunk_metadata['chunk_index'] = i
          doc_chunks.append({'text': chunk, 'metadata': chunk_metadata})
      return doc_chunks
  \<close>
  The two logging calls do not influence the result and are left out.
\<close>

definition create_document_chunks :: "pystr \<Rightarrow> document \<Rightarrow> chunk list" where
  "create_document_chunks now doc =
     (let raw_content = doc_get doc ''content'' [] in
      if raw_content = [] then []
      else
        let cleaned_content = clean_text raw_content;
            md = extract_metadata now doc;
            text_chunks = chunk_text cleaned_content 500 50
        in map (\<lambda>(i, c). \<lparr> text_field = c, metadata = doc_metadata.extend md (chunk_metadata.fields i) \<rparr>)
               (enumerate 0 text_chunks))"

section \<open>Exceptions\<close>

text \<open>
  The exceptions that the modelled code raises or catches. \<open>ServiceError\<close> stands
  for any exception (a subclass of \<^verbatim>\<open>Exception\<close>) raised by an external service, with
  its message. \<open>str_exception\<close> is \<^verbatim>\<open>str(e)\<close>; \<open>quoted\<close> is \<^verbatim>\<open>repr\<close> of a string
  without quotes or escapes in it.
\<close>

datatype py_exception =
    ValueError pystr
  | KeyError pystr
  | IndexError
  | AttributeError pystr
  | ServiceError pystr

definition quoted :: "pystr \<Rightarrow> pystr" where
  "quoted s = [39] @ s @ [39]"

fun str_exception :: "py_exception \<Rightarrow> pystr" where
  "str_exception (ValueError m) = m"
| "str_exception (KeyError k) = quoted k"
| "str_exception IndexError = py ''list index out of range''"
| "str_exception (AttributeError a) =
     quoted (py ''NoneType'') @ py '' object has no attribute '' @ quoted a"
| "str_exception (ServiceError m) = m"

text \<open>\<^verbatim>\<open>str(n)\<close> for a natural number: its decimal digits.\<close>

function str_nat :: "nat \<Rightarrow> pystr" where
  "str_nat n = (if n < 10 then [48 + n] else str_nat (n div 10) @ [48 + n mod 10])"
  by pat_completeness auto
termination
  by (relation "measure id") auto

section \<open>rag_pipeline.py\<close>

text \<open>
  The pipeline object holds an embedding model and a vector-store client, both
  external. Their methods are parameters of the model: a call may raise, the
  embedding service has a state \<open>'s\<close> of its own, and the collection has a state
  \<open>'c\<close>. \<open>'e\<close> is the type of an embedding vector and \<open>'d\<close> of a distance.
  \<^verbatim>\<open>self.collection\<close> is \<^verbatim>\<open>None\<close> when \<^verbatim>\<open>setup_vectorstore\<close> failed.
\<close>

record 'd query_result =
  ids :: "pystr list list"
  documents :: "pystr list list"
  metadatas :: "chunk_metadata list list"
  distances :: "'d list list option"

record 'd search_result =
  result_id :: pystr
  result_text :: pystr
  result_metadata :: chunk_metadata
  result_distance :: "'d option"

record ('c, 's, 'e, 'd) rag_pipeline =
  collection_name :: pystr
  embed_documents :: "pystr list \<Rightarrow> 's \<Rightarrow> (py_exception + 'e list) \<times> 's"
  embed_query :: "pystr \<Rightarrow> 's \<Rightarrow> (py_exception + 'e) \<times> 's"
  upsert :: "pystr list \<Rightarrow> 'e list \<Rightarrow> chunk_metadata list \<Rightarrow> pystr list \<Rightarrow> 'c \<Rightarrow>
             (py_exception + unit) \<times> 'c"
  query :: "'e list \<Rightarrow> int \<Rightarrow> 'c \<Rightarrow> py_exception + 'd query_result"

record ('c, 's) world =
  collection :: "'c option"
  service :: 's

datatype log_level = INFO | WARNING | ERROR

type_synonym log = "(log_level \<times> pystr) list"

text \<open>
  \<^verbatim>\<open>
  def create_embeddings(self, texts):
      try:
          if not texts: return []
          return self.embedding_model.embed_documents(texts)
      except Exception as e:
          logger.error(f"Failed to create embeddings: {e}")
          return []
  \<close>
  The result is the list of embeddings, the lines logged and the new state of the
  embedding service.
\<close>

definition create_embeddings ::
  "('c, 's, 'e, 'd) rag_pipeline \<Rightarrow> pystr list \<Rightarrow> 's \<Rightarrow> ('e list \<times> log) \<times> 's"
where
  "create_embeddings p texts s =
     (if texts = [] then (([], []), s)
      else case embed_documents p texts s of
             (Inr embeddings, s') \<Rightarrow> ((embeddings, []), s')
           | (Inl e, s') \<Rightarrow>
               (([], [(ERROR, py ''Failed to create embeddings: '' @ str_exception e)]), s'))"

text \<open>
  \<^verbatim>\<open>
  def add_documents(self, chunks):
      if not chunks:
          logger.warning("No chunks to add."); return
      try:
          texts = [chunk['text'] for chunk in chunks]
          metadatas = [chunk['metadata'] for chunk in chunks]
          ids = [f"{chunk['metadata']['filename']}_{chunk['metadata']['chunk_index']}"
                 for chunk in chunks]
          embeddings = self.create_embeddings(texts)
          if not embeddings:
              logger.error("Failed to generate embeddings. Aborting add_documents.")
              return
          self.collection.upsert(documents=texts, embeddings=embeddings,
                                 metadatas=metadatas, ids=ids)
          logger.info(f"Added/Updated {len(chunks)} chunks in collection '...'.")
      except Exception as e:
          logger.error(f"Failed to add documents to vector store: {e}")
  \<close>
  The method returns \<^verbatim>\<open>None\<close> on every path; the model returns the new world and the
  lines logged.
\<close>

definition chunk_id :: "chunk \<Rightarrow> pystr" where
  "chunk_id c = filename (metadata c) @ py ''_'' @ str_nat (chunk_index (metadata c))"

definition add_documents ::
  "('c, 's, 'e, 'd) rag_pipeline \<Rightarrow> chunk list \<Rightarrow> ('c, 's) world \<Rightarrow> ('c, 's) world \<times> log"
where
  "add_documents p chunks w =
     (if chunks = [] then (w, [(WARNING, py ''No chunks to add.'')])
      else
        let texts = map text_field chunks;
            metadatas = map metadata chunks;
            ids = map chunk_id chunks
        in case create_embeddings p texts (service w) of
             ((embeddings, lg), s') \<Rightarrow>
               if embeddings = [] then
                 (w\<lparr>service := s'\<rparr>,
                  lg @ [(ERROR, py ''Failed to generate embeddings. Aborting add_documents.'')])
               else
                 (case collection w of
                    None \<Rightarrow>
                      (w\<lparr>service := s'\<rparr>,
                       lg @ [(ERROR, py ''Failed to add documents to vector store: '' @
                                     str_exception (AttributeError (py ''upsert'')))])
                  | Some c \<Rightarrow>
                      (case upsert p texts embeddings metadatas ids c of
                         (Inr u, c') \<Rightarrow>
                           (\<lparr>collection = Some c', service = s'\<rparr>,
                            lg @ [(INFO, py ''Added/Updated '' @ str_nat (length chunks) @
                                         py '' chunks in collection '' @
                                         quoted (collection_name p) @ py ''.'')])
                       | (Inl e, c') \<Rightarrow>
                           (\<lparr>collection = Some c', service = s'\<rparr>,
                            lg @ [(ERROR, py ''Failed to add documents to vector store: '' @
                                          str_exception e)]))))"

text \<open>
  The formatting loop of \<^verbatim>\<open>search_similar\<close>; an index out of range raises.
  \<^verbatim>\<open>
  if results['ids']:
      for i in range(len(results['ids'][0])):
          formatted_results.append({
              'id': results['ids'][0][i], 'text': results['documents'][0][i],
              'metadata': results['metadatas'][0][i],
              'distance': results['distances'][0][i] if results['distances'] else None})
  \<close>
\<close>

definition item :: "'a list \<Rightarrow> nat \<Rightarrow> py_exception + 'a" where
  "item xs i = (if i < length xs then Inr (xs ! i) else Inl IndexError)"

definition format_row :: "'d query_result \<Rightarrow> nat \<Rightarrow> py_exception + 'd search_result" where
  "format_row r i =
     (case item (ids r) 0 of Inl e \<Rightarrow> Inl e | Inr ids0 \<Rightarrow>
     (case item ids0 i of Inl e \<Rightarrow> Inl e | Inr the_id \<Rightarrow>
     (case item (documents r) 0 of Inl e \<Rightarrow> Inl e | Inr documents0 \<Rightarrow>
     (case item documents0 i of Inl e \<Rightarrow> Inl e | Inr the_text \<Rightarrow>
     (case item (metadatas r) 0 of Inl e \<Rightarrow> Inl e | Inr metadatas0 \<Rightarrow>
     (case item metadatas0 i of Inl e \<Rightarrow> Inl e | Inr the_metadata \<Rightarrow>
     (case distances r of
        None \<Rightarrow> Inr \<lparr>result_id = the_id, result_text = the_text,
                      result_metadata = the_metadata, result_distance = None\<rparr>
      | Some ds \<Rightarrow>
          if ds = [] then Inr \<lparr>result_id = the_id, result_text = the_text,
                                result_metadata = the_metadata, result_distance = None\<rparr>
          else
            (case item ds 0 of Inl e \<Rightarrow> Inl e | Inr distances0 \<Rightarrow>
            (case item distances0 i of Inl e \<Rightarrow> Inl e | Inr d \<Rightarrow>
               Inr \<lparr>result_id = the_id, result_text = the_text,
                    result_metadata = the_metadata, result_distance = Some d\<rparr>)))))))))"

fun format_rows :: "'d query_result \<Rightarrow> nat list \<Rightarrow> py_exception + 'd search_result list" where
  "format_rows r [] = Inr []"
| "format_rows r (i # rest) =
     (case format_row r i of
        Inl e \<Rightarrow> Inl e
      | Inr x \<Rightarrow> (case format_rows r rest of Inl e \<Rightarrow> Inl e | Inr xs \<Rightarrow> Inr (x # xs)))"

definition format_results :: "'d query_result \<Rightarrow> py_exception + 'd search_result list" where
  "format_results r =
     (if ids r \<noteq> [] then format_rows r [0..<length (ids r ! 0)] else Inr [])"

text \<open>
  \<^verbatim>\<open>
  def search_similar(self, query, n_results=5):
      try:
          query_embedding = self.embedding_model.embed_query(query)
          results = self.collection.query(query_embeddings=[query_embedding],
                                          n_results=n_results)
          (formatting loop)
          return formatted_results
      except Exception as e:
          logger.error(f"Search failed: {e}"); return []
  \<close>
  Every exception ends in the empty list, so the method returns a list on every path.
\<close>

definition search_similar ::
  "('c, 's, 'e, 'd) rag_pipeline \<Rightarrow> pystr \<Rightarrow> int \<Rightarrow> ('c, 's) world \<Rightarrow>
   'd search_result list \<times> ('c, 's) world"
where
  "search_similar p query_text n_results w =
     (case embed_query p query_text (service w) of
        (Inl e, s') \<Rightarrow> ([], w\<lparr>service := s'\<rparr>)
      | (Inr query_embedding, s') \<Rightarrow>
          (case collection w of
             None \<Rightarrow> ([], w\<lparr>service := s'\<rparr>)
           | Some c \<Rightarrow>
               (case query p [query_embedding] n_results c of
                  Inl e \<Rightarrow> ([], w\<lparr>service := s'\<rparr>)
                | Inr results \<Rightarrow>
                    (case format_results results of
                       Inl e \<Rightarrow> ([], w\<lparr>service := s'\<rparr>)
                     | Inr formatted_results \<Rightarrow> (formatted_results, w\<lparr>service := s'\<rparr>)))))"

section \<open>prompt_templates.py\<close>

text \<open>
  A template is a format string. It is modelled in parsed form: literal text and
  replacement fields \<^verbatim>\<open>{name}\<close>. \<^verbatim>\<open>template.format(**kwargs)\<close> raises \<^verbatim>\<open>KeyError\<close> at
  the first field that \<^verbatim>\<open>kwargs\<close> lacks; further keyword arguments are ignored.
\<close>

datatype template_part = Literal pystr | Field string

type_synonym template = "template_part list"

fun format_template :: "template \<Rightarrow> (string \<rightharpoonup> pystr) \<Rightarrow> py_exception + pystr" where
  "format_template [] kwargs = Inr []"
| "format_template (Literal s # rest) kwargs =
     (case format_template rest kwargs of Inl e \<Rightarrow> Inl e | Inr r \<Rightarrow> Inr (s @ r))"
| "format_template (Field k # rest) kwargs =
     (case kwargs k of
        None \<Rightarrow> Inl (KeyError (py k))
      | Some v \<Rightarrow> (case format_template rest kwargs of Inl e \<Rightarrow> Inl e | Inr r \<Rightarrow> Inr (v @ r)))"

text \<open>
  The four templates of the module. Their replacement fields are those of the source,
  in the order of the source; the literal text between the fields, which contains no
  brace, is a parameter \<open>lit\<close>.
\<close>

definition RESUME_BULLET_PROMPT :: "(nat \<Rightarrow> pystr) \<Rightarrow> template" where
  "RESUME_BULLET_PROMPT lit =
     [Literal (lit 0), Field ''job_description'', Literal (lit 1), Field ''context'',
      Literal (lit 2), Field ''name'', Literal (lit 3)]"

definition COVER_LETTER_PROMPT :: "(nat \<Rightarrow> pystr) \<Rightarrow> template" where
  "COVER_LETTER_PROMPT lit =
     [Literal (lit 0), Field ''job_description'', Literal (lit 1), Field ''company_name'',
      Literal (lit 2), Field ''role_title'', Literal (lit 3), Field ''context'', Literal (lit 4)]"

definition ATS_ANALYSIS_PROMPT :: "(nat \<Rightarrow> pystr) \<Rightarrow> template" where
  "ATS_ANALYSIS_PROMPT lit =
     [Literal (lit 0), Field ''job_description'', Literal (lit 1), Field ''resume_content'',
      Literal (lit 2)]"

definition LINKEDIN_MESSAGE_PROMPT :: "(nat \<Rightarrow> pystr) \<Rightarrow> template" where
  "LINKEDIN_MESSAGE_PROMPT lit =
     [Literal (lit 0), Field ''job_description'', Literal (lit 1), Field ''company_name'',
      Literal (lit 2), Field ''role_title'', Literal (lit 3), Field ''achievement'',
      Literal (lit 4)]"

text \<open>The dictionary \<^verbatim>\<open>prompts\<close> that \<^verbatim>\<open>get_prompt\<close> builds from the four templates.\<close>

definition source_prompts :: "(string \<Rightarrow> nat \<Rightarrow> pystr) \<Rightarrow> (string \<times> template) list" where
  "source_prompts lits =
     [(''resume_bullets'', RESUME_BULLET_PROMPT (lits ''resume_bullets'')),
      (''cover_letter'', COVER_LETTER_PROMPT (lits ''cover_letter'')),
      (''ats_analysis'', ATS_ANALYSIS_PROMPT (lits ''ats_analysis'')),
      (''linkedin_message'', LINKEDIN_MESSAGE_PROMPT (lits ''linkedin_message''))]"

text \<open>
  \<^verbatim>\<open>
  def get_prompt(prompt_type, **kwargs):
      prompts = {...}
      if prompt_type not in prompts:
          raise ValueError(f"Unknown prompt type: {prompt_type}. "
                           f"Valid types: {list(prompts.keys())}")
      template = prompts[prompt_type]
      try:
          return template.format(**kwargs)
      except KeyError as e:
          raise ValueError(f"Missing required argument for {prompt_type} prompt: {e}")
  \<close>
  The dictionary is the first argument of the model.
\<close>

definition repr_list :: "string list \<Rightarrow> pystr" where
  "repr_list ks = py ''['' @ join (py '', '') (map (\<lambda>k. quoted (py k)) ks) @ py '']''"

definition get_prompt ::
  "(string \<times> template) list \<Rightarrow> string \<Rightarrow> (string \<rightharpoonup> pystr) \<Rightarrow> py_exception + pystr"
where
  "get_prompt prompts prompt_type kwargs =
     (case map_of prompts prompt_type of
        None \<Rightarrow>
          Inl (ValueError (py ''Unknown prompt type: '' @ py prompt_type @
                           py ''. Valid types: '' @ repr_list (map fst prompts)))
      | Some template \<Rightarrow>
          (case format_template template kwargs of
             Inl (KeyError k) \<Rightarrow>
               Inl (ValueError (py ''Missing required argument for '' @ py prompt_type @
                                py '' prompt: '' @ str_exception (KeyError k)))
           | Inl e \<Rightarrow> Inl e
           | Inr s \<Rightarrow> Inr s))"

section \<open>generation_chains.py\<close>

text \<open>
  The generator holds the pipeline, the chat model and, through the module
  \<^verbatim>\<open>prompt_templates\<close>, the templates. \<open>llm_invoke\<close> is
  \<^verbatim>\<open>self.llm.invoke(prompt).content\<close>: it may raise, and it shares the state of the
  remote service. The logging calls of this module are left out.
\<close>

record ('c, 's, 'e, 'd) generator =
  pipeline :: "('c, 's, 'e, 'd) rag_pipeline"
  llm_invoke :: "pystr \<Rightarrow> 's \<Rightarrow> (py_exception + pystr) \<times> 's"
  prompts :: "(string \<times> template) list"

definition llm_content ::
  "('c, 's, 'e, 'd) generator \<Rightarrow> pystr \<Rightarrow> ('c, 's) world \<Rightarrow> (py_exception + pystr) \<times> ('c, 's) world"
where
  "llm_content g prompt w =
     (case llm_invoke g prompt (service w) of (r, s') \<Rightarrow> (r, w\<lparr>service := s'\<rparr>))"

definition error_text :: "py_exception \<Rightarrow> pystr" where
  "error_text e = py ''Error: '' @ str_exception e"

text \<open>
  \<^verbatim>\<open>
  def _retrieve_context(self, query, n_results=3):
      try:
          results = self.rag_pipeline.search_similar(query, n_results=n_results)
          if not results:
              return "No relevant background information available."
          context_parts = [result['text'] for result in results]
          return "\n\n".join(context_parts)
      except Exception as e:
          return "Error retrieving background information."
  \<close>
  \<open>search_similar\<close> returns a list of results with a text each on every path, so no
  statement of the \<^verbatim>\<open>try\<close> block raises and the handler is not reached.
\<close>

definition retrieve_context ::
  "('c, 's, 'e, 'd) generator \<Rightarrow> pystr \<Rightarrow> int \<Rightarrow> ('c, 's) world \<Rightarrow> pystr \<times> ('c, 's) world"
where
  "retrieve_context g query_text n_results w =
     (case search_similar (pipeline g) query_text n_results w of
        (results, w') \<Rightarrow>
          if results = [] then (py ''No relevant background information available.'', w')
          else (join [10, 10] (map result_text results), w'))"

text \<open>
  The four operations have one shape: the body of the \<^verbatim>\<open>try\<close> block retrieves the
  context, renders the prompt and calls the model; the handler
  \<^verbatim>\<open>except Exception as e: return f"Error: {str(e)}"\<close> turns every exception of the
  body into a text.
\<close>

definition generate_resume_bullets ::
  "('c, 's, 'e, 'd) generator \<Rightarrow> pystr \<Rightarrow> pystr \<Rightarrow> ('c, 's) world \<Rightarrow> pystr \<times> ('c, 's) world"
where
  "generate_resume_bullets g job_description candidate_name w =
     (case retrieve_context g job_description 5 w of
        (context, w1) \<Rightarrow>
          (case get_prompt (prompts g) ''resume_bullets''
                  [''job_description'' \<mapsto> job_description, ''context'' \<mapsto> context,
                   ''name'' \<mapsto> candidate_name] of
             Inl e \<Rightarrow> (error_text e, w1)
           | Inr prompt \<Rightarrow>
               (case llm_content g prompt w1 of
                  (Inl e, w2) \<Rightarrow> (error_text e, w2)
                | (Inr result, w2) \<Rightarrow> (result, w2))))"

definition generate_cover_letter ::
  "('c, 's, 'e, 'd) generator \<Rightarrow> pystr \<Rightarrow> pystr \<Rightarrow> pystr \<Rightarrow> ('c, 's) world \<Rightarrow>
   pystr \<times> ('c, 's) world"
where
  "generate_cover_letter g job_description company_name role_title w =
     (case retrieve_context g job_description 5 w of
        (context, w1) \<Rightarrow>
          (case get_prompt (prompts g) ''cover_letter''
                  [''job_description'' \<mapsto> job_description, ''company_name'' \<mapsto> company_name,
                   ''role_title'' \<mapsto> role_title, ''context'' \<mapsto> context] of
             Inl e \<Rightarrow> (error_text e, w1)
           | Inr prompt \<Rightarrow>
               (case llm_content g prompt w1 of
                  (Inl e, w2) \<Rightarrow> (error_text e, w2)
                | (Inr result, w2) \<Rightarrow> (result, w2))))"

text \<open>
  The first statement of the \<^verbatim>\<open>try\<close> block of \<^verbatim>\<open>generate_ats_analysis\<close>:
  \<^verbatim>\<open>
  if not resume_content or resume_content.strip() == "" or \
     resume_content == "Resume content not provided for ATS analysis.":
      resume_content = self._retrieve_context(
          "resume work experience projects skills education background", n_results=10)
  \<close>
\<close>

definition ats_resume_content ::
  "('c, 's, 'e, 'd) generator \<Rightarrow> pystr \<Rightarrow> ('c, 's) world \<Rightarrow> pystr \<times> ('c, 's) world"
where
  "ats_resume_content g resume_content w =
     (if resume_content = [] \<or> strip resume_content = [] \<or>
         resume_content = py ''Resume content not provided for ATS analysis.''
      then retrieve_context g
             (py ''resume work experience projects skills education background'') 10 w
      else (resume_content, w))"

definition generate_ats_analysis ::
  "('c, 's, 'e, 'd) generator \<Rightarrow> pystr \<Rightarrow> pystr \<Rightarrow> ('c, 's) world \<Rightarrow> pystr \<times> ('c, 's) world"
where
  "generate_ats_analysis g job_description resume_content w =
     (case ats_resume_content g resume_content w of
        (resume_content', w1) \<Rightarrow>
          (case get_prompt (prompts g) ''ats_analysis''
                  [''job_description'' \<mapsto> job_description,
                   ''resume_content'' \<mapsto> resume_content'] of
             Inl e \<Rightarrow> (error_text e, w1)
           | Inr prompt \<Rightarrow>
               (case llm_content g prompt w1 of
                  (Inl e, w2) \<Rightarrow> (error_text e, w2)
                | (Inr result, w2) \<Rightarrow> (result, w2))))"

text \<open>
  \<^verbatim>\<open>achievement = results[0]['text'] if results else "relevant experience in the field"\<close>
\<close>

definition achievement_of :: "'d search_result list \<Rightarrow> pystr" where
  "achievement_of results =
     (case results of [] \<Rightarrow> py ''relevant experience in the field'' | r # _ \<Rightarrow> result_text r)"

definition generate_linkedin_message ::
  "('c, 's, 'e, 'd) generator \<Rightarrow> pystr \<Rightarrow> pystr \<Rightarrow> pystr \<Rightarrow> ('c, 's) world \<Rightarrow>
   pystr \<times> ('c, 's) world"
where
  "generate_linkedin_message g job_description company_name role_title w =
     (case search_similar (pipeline g) job_description 1 w of
        (results, w1) \<Rightarrow>
          (case get_prompt (prompts g) ''linkedin_message''
                  [''job_description'' \<mapsto> job_description, ''company_name'' \<mapsto> company_name,
                   ''role_title'' \<mapsto> role_title, ''achievement'' \<mapsto> achievement_of results] of
             Inl e \<Rightarrow> (error_text e, w1)
           | Inr prompt \<Rightarrow>
               (case llm_content g prompt w1 of
                  (Inl e, w2) \<Rightarrow> (error_text e, w2)
                | (Inr result, w2) \<Rightarrow> (result, w2))))"

text \<open>
  \<^verbatim>\<open>generate_all\<close> builds the dictionary of the four results; the four calls are
  evaluated in the order of the dictionary display.
\<close>

record generated =
  resume_bullets :: pystr
  cover_letter :: pystr
  ats_analysis :: pystr
  linkedin_message :: pystr

definition generate_all ::
  "('c, 's, 'e, 'd) generator \<Rightarrow> pystr \<Rightarrow> pystr \<Rightarrow> pystr \<Rightarrow> pystr \<Rightarrow> pystr \<Rightarrow>
   ('c, 's) world \<Rightarrow> generated \<times> ('c, 's) world"
where
  "generate_all g job_description company_name role_title candidate_name resume_content w =
     (case generate_resume_bullets g job_description candidate_name w of (r1, w1) \<Rightarrow>
      case generate_cover_letter g job_description company_name role_title w1 of (r2, w2) \<Rightarrow>
      case generate_ats_analysis g job_description resume_content w2 of (r3, w3) \<Rightarrow>
      case generate_linkedin_message g job_description company_name role_title w3 of (r4, w4) \<Rightarrow>
        (\<lparr>resume_bullets = r1, cover_letter = r2, ats_analysis = r3, linkedin_message = r4\<rparr>, w4))"

text \<open>
  The text that \<open>get_prompt\<close> renders from the templates of the source, and the text
  an operation returns for each outcome of the call of the model.
\<close>

definition resume_bullets_prompt :: "(nat \<Rightarrow> pystr) \<Rightarrow> pystr \<Rightarrow> pystr \<Rightarrow> pystr \<Rightarrow> pystr" where
  "resume_bullets_prompt lit job_description context candidate_name =
     lit 0 @ job_description @ lit 1 @ context @ lit 2 @ candidate_name @ lit 3"

definition cover_letter_prompt ::
  "(nat \<Rightarrow> pystr) \<Rightarrow> pystr \<Rightarrow> pystr \<Rightarrow> pystr \<Rightarrow> pystr \<Rightarrow> pystr" where
  "cover_letter_prompt lit job_description company_name role_title context =
     lit 0 @ job_description @ lit 1 @ company_name @ lit 2 @ role_title @ lit 3 @ context @ lit 4"

definition ats_analysis_prompt :: "(nat \<Rightarrow> pystr) \<Rightarrow> pystr \<Rightarrow> pystr \<Rightarrow> pystr" where
  "ats_analysis_prompt lit job_description resume_content =
     lit 0 @ job_description @ lit 1 @ resume_content @ lit 2"

definition linkedin_message_prompt ::
  "(nat \<Rightarrow> pystr) \<Rightarrow> pystr \<Rightarrow> pystr \<Rightarrow> pystr \<Rightarrow> pystr \<Rightarrow> pystr" where
  "linkedin_message_prompt lit job_description company_name role_title achievement =
     lit 0 @ job_description @ lit 1 @ company_name @ lit 2 @ role_title @ lit 3 @ achievement @ lit 4"

fun completion :: "py_exception + pystr \<Rightarrow> pystr" where
  "completion (Inl e) = error_text e"
| "completion (Inr result) = result"

section \<open>A sample pipeline and generator\<close>

text \<open>
  Concrete collaborators on which the theorems are instantiated. The collection is
  the number of stored passages and an upsert adds to it; the state of the remote
  service is the number of calls made so far. The embedding of documents fails, the
  query returns one passage, and the chat model fails on the call made in service
  state 3, which in \<open>generate_all\<close> is the call for the cover letter.
\<close>

definition sample_metadata :: chunk_metadata where
  "sample_metadata =
     \<lparr>filename = py ''cv.txt'', file_type = py ''txt'', date_processed = py ''2024-01-01'',
      word_count = 5, chunk_index = 0\<rparr>"

definition sample_pipeline :: "(nat, nat, unit, unit) rag_pipeline" where
  "sample_pipeline =
     \<lparr>collection_name = py ''job_assistant'',
      embed_documents = (\<lambda>texts s. (Inl (ServiceError (py ''quota exceeded'')), Suc s)),
      embed_query = (\<lambda>q s. (Inr (), Suc s)),
      upsert = (\<lambda>texts embeddings metadatas ids c. (Inr (), c + length ids)),
      query = (\<lambda>e n c. Inr \<lparr>ids = [[py ''cv.txt_0'']], documents = [[py ''Led a team.'']],
                              metadatas = [[sample_metadata]], distances = None\<rparr>)\<rparr>"

definition sample_generator :: "(string \<times> template) list \<Rightarrow> (nat, nat, unit, unit) generator" where
  "sample_generator ps =
     \<lparr>pipeline = sample_pipeline,
      llm_invoke = (\<lambda>prompt s. (if s = 3 then Inl (ServiceError (py ''timeout''))
                                 else Inr (py ''ok''), Suc s)),
      prompts = ps\<rparr>"

definition sample_world :: "(nat, nat) world" where
  "sample_world = \<lparr>collection = Some 0, service = 0\<rparr>"

definition sample_chunk :: chunk where
  "sample_chunk = \<lparr>text_field = py ''Led a team.'', metadata = sample_metadata\<rparr>"

section \<open>Properties of clean_text\<close>

lemma is_space_32: "is_space 32" by (simp add: is_space_def)
lemma is_space_10: "is_space 10" by (simp add: is_space_def)

lemma adj_free_Cons:
  "adj_free (a # xs) \<longleftrightarrow> adj_free xs \<and> (xs = [] \<or> \<not> (is_space a \<and> is_space (hd xs)))"
  by (cases xs) auto

lemma adj_free_append:
  "adj_free (xs @ ys) \<longleftrightarrow>
     adj_free xs \<and> adj_free ys \<and> (xs = [] \<or> ys = [] \<or> \<not> (is_space (last xs) \<and> is_space (hd ys)))"
proof (induction xs)
  case Nil
  show ?case by simp
next
  case (Cons a xs)
  show ?case
    by (cases xs) (use Cons in \<open>auto simp: adj_free_Cons\<close>)
qed

lemma adj_free_rev: "adj_free (rev xs) = adj_free xs"
  by (induction xs) (auto simp: adj_free_append adj_free_Cons last_rev hd_rev)

lemma adj_free_dropWhile: "adj_free xs \<Longrightarrow> adj_free (dropWhile p xs)"
proof -
  assume a: "adj_free xs"
  have "adj_free (takeWhile p xs @ dropWhile p xs)" using a by simp
  then show ?thesis unfolding adj_free_append by blast
qed

lemma collapsed_dropWhile: "collapsed xs \<Longrightarrow> collapsed (dropWhile p xs)"
  by (auto simp: collapsed_def adj_free_dropWhile dest: set_dropWhileD)

lemma collapsed_rev: "collapsed (rev xs) = collapsed xs"
  by (simp add: collapsed_def adj_free_rev)

lemma collapsed_strip: "collapsed xs \<Longrightarrow> collapsed (strip xs)"
  by (simp add: strip_def collapsed_rev collapsed_dropWhile)

lemma set_sub_runs: "set (sub_runs p rep xs) \<subseteq> set xs \<union> set rep"
proof (induction p rep xs rule: sub_runs.induct)
  case (1 p rep)
  show ?case by simp
next
  case (2 p rep c cs)
  show ?case
  proof (cases "p c")
    case True
    with 2 have "set (sub_runs p rep (dropWhile p cs)) \<subseteq> set (dropWhile p cs) \<union> set rep" by simp
    moreover have "set (dropWhile p cs) \<subseteq> set cs" by (auto dest: set_dropWhileD)
    ultimately show ?thesis using True by auto
  next
    case False
    with 2 show ?thesis by auto
  qed
qed

lemma hd_sub_runs_not:
  "xs \<noteq> [] \<Longrightarrow> \<not> p (hd xs) \<Longrightarrow> sub_runs p rep xs \<noteq> [] \<and> hd (sub_runs p rep xs) = hd xs"
  by (cases xs) auto

lemma collapsed_sub_runs: "collapsed (sub_runs is_space [32] xs)"
proof (induction "is_space" "[32::nat]" xs rule: sub_runs.induct)
  case 1
  show ?case by (simp add: collapsed_def)
next
  case (2 c cs)
  show ?case
  proof (cases "is_space c")
    case True
    define d where "d = dropWhile is_space cs"
    have ih: "collapsed (sub_runs is_space [32] d)" using 2 True by (simp add: d_def)
    have "d = [] \<or> \<not> is_space (hd d)" using hd_dropWhile[of is_space cs] unfolding d_def by blast
    then have "sub_runs is_space [32] d = [] \<or> \<not> is_space (hd (sub_runs is_space [32] d))"
      using hd_sub_runs_not[of d is_space "[32]"] by (cases "d = []") auto
    moreover have "sub_runs is_space [32] (c # cs) = 32 # sub_runs is_space [32] d"
      using True by (simp add: d_def)
    ultimately show ?thesis using ih by (auto simp: collapsed_def adj_free_Cons)
  next
    case False
    with 2 show ?thesis by (auto simp: collapsed_def adj_free_Cons)
  qed
qed

lemma sub_runs_id: "\<forall>c \<in> set xs. \<not> p c \<Longrightarrow> sub_runs p rep xs = xs"
  by (induction xs) auto

lemma sub_runs_collapsed: "collapsed xs \<Longrightarrow> sub_runs is_space [32] xs = xs"
proof (induction xs)
  case Nil
  show ?case by simp
next
  case (Cons a xs)
  then have c: "collapsed xs" by (auto simp: collapsed_def adj_free_Cons)
  show ?case
  proof (cases "is_space a")
    case True
    with Cons.prems have a: "a = 32" and h: "xs = [] \<or> \<not> is_space (hd xs)"
      by (auto simp: collapsed_def adj_free_Cons)
    from h have "dropWhile is_space xs = xs" by (cases xs) auto
    with True a Cons.IH[OF c] show ?thesis by simp
  next
    case False
    with Cons.IH[OF c] show ?thesis by simp
  qed
qed

lemma strip_ends: "strip xs = [] \<or> (\<not> is_space (hd (strip xs)) \<and> \<not> is_space (last (strip xs)))"
proof (cases "strip xs = []")
  case True
  then show ?thesis by simp
next
  case False
  define w where "w = dropWhile is_space xs"
  define v where "v = dropWhile is_space (rev w)"
  have s: "strip xs = rev v" by (simp add: strip_def v_def w_def)
  have v: "v \<noteq> []" using False s by simp
  have w: "w \<noteq> []" using v unfolding v_def by (cases w) auto
  have 1: "\<not> is_space (hd v)" using hd_dropWhile[of is_space "rev w"] v unfolding v_def by simp
  have "\<not> is_space (hd w)" using hd_dropWhile[of is_space xs] w unfolding w_def by simp
  then have "\<not> is_space (last (rev w))" using w by (simp add: last_rev)
  moreover have "suffix v (rev w)" unfolding v_def by (rule suffix_dropWhile)
  ultimately have 2: "\<not> is_space (last v)" using v by (auto simp: suffix_def)
  show ?thesis using 1 2 v s by (simp add: hd_rev last_rev)
qed

lemma strip_id: "xs = [] \<or> (\<not> is_space (hd xs) \<and> \<not> is_space (last xs)) \<Longrightarrow> strip xs = xs"
proof (cases xs)
  case Nil
  then show ?thesis by (simp add: strip_def)
next
  case (Cons a ys)
  assume "xs = [] \<or> (\<not> is_space (hd xs) \<and> \<not> is_space (last xs))"
  with Cons have h: "\<not> is_space (hd xs)" and l: "\<not> is_space (last xs)" by auto
  have 1: "dropWhile is_space xs = xs" using h Cons by simp
  obtain b bs where r: "rev xs = b # bs" using Cons by (cases "rev xs") auto
  have "hd (rev xs) = last xs" by (simp add: hd_rev)
  then have "\<not> is_space b" using l r by simp
  then have 2: "dropWhile is_space (rev xs) = rev xs" unfolding r by simp
  show ?thesis by (simp add: strip_def 1 2)
qed

lemma set_strip: "set (strip xs) \<subseteq> set xs"
  by (auto simp: strip_def dest!: set_dropWhileD)

lemma is_kept_space: "is_space c \<Longrightarrow> is_kept c"
  by (simp add: is_kept_def)

text \<open>
  Claim C10. \<open>clean_text\<close> is idempotent: for every input string \<open>s\<close>, cleaning the
  cleaned text again returns it unchanged.
\<close>

theorem clean_text_idempotent: "clean_text (clean_text s) = clean_text s"
proof (cases "s = []")
  case True
  then show ?thesis by (simp add: clean_text_def)
next
  case False
  define t2 where "t2 = filter is_kept (sub_runs (\<lambda>c. c = 10) [32] s)"
  define t3 where "t3 = sub_runs is_space [32] t2"
  define z where "z = strip t3"
  have cz: "clean_text s = z" using False by (simp add: clean_text_def z_def t3_def t2_def)
  have c3: "collapsed t3" unfolding t3_def by (rule collapsed_sub_runs)
  then have colz: "collapsed z" unfolding z_def by (rule collapsed_strip)
  have "set t3 \<subseteq> set t2 \<union> {32}" unfolding t3_def using set_sub_runs[of is_space "[32]" t2] by simp
  moreover have "\<forall>c \<in> set t2. is_kept c" unfolding t2_def by simp
  ultimately have "\<forall>c \<in> set t3. is_kept c" using is_kept_space[OF is_space_32] by auto
  then have kz: "\<forall>c \<in> set z. is_kept c" unfolding z_def using set_strip[of t3] by auto
  have "\<forall>c \<in> set z. c \<noteq> 10" using colz is_space_10 by (auto simp: collapsed_def)
  then have s1: "sub_runs (\<lambda>c. c = 10) [32] z = z" by (intro sub_runs_id) simp
  have s2: "filter is_kept z = z" using kz by simp
  have s3: "sub_runs is_space [32] z = z" using colz by (rule sub_runs_collapsed)
  have s4: "strip z = z" unfolding z_def by (rule strip_id) (rule strip_ends)
  show ?thesis unfolding cz by (simp add: clean_text_def s1 s2 s3 s4)
qed

text \<open>
  Claim C4. \<open>clean_text\<close> is to keep letters, digits, whitespace, the punctuation
  \<^verbatim>\<open>. , ! ? -\<close> and the apostrophe, as the comment above the second substitution says
  (\<^verbatim>\<open>keep basic punctuation (.,!?-')\<close>). The character class of that substitution does
  not list the apostrophe (code point 39), so the code deletes it: the contraction
  \<^verbatim>\<open>don't\<close> is cleaned to \<^verbatim>\<open>dont\<close>.
\<close>

theorem clean_text_drops_apostrophe:
  "clean_text (py ''don'' @ [39] @ py ''t'') = py ''dont''"
  by (simp add: clean_text_def py_def is_kept_def is_space_def strip_def)

section \<open>Properties of chunk_text\<close>

lemma total_len_simps [simp]:
  "total_len [] = 0" "total_len (s # ss) = int (length s) + total_len ss"
  "total_len (xs @ ys) = total_len xs + total_len ys"
  by (simp_all add: total_len_def)

lemma total_len_rev [simp]: "total_len (rev xs) = total_len xs"
  by (induction xs) auto

lemma total_len_nonneg: "0 \<le> total_len ss"
  by (induction ss) auto

lemma length_join: "ss \<noteq> [] \<Longrightarrow> int (length (join [32] ss)) = total_len ss + int (length ss) - 1"
  by (induction "[32::nat]" ss rule: join.induct) auto

lemma join_append:
  "xs \<noteq> [] \<Longrightarrow> ys \<noteq> [] \<Longrightarrow> join sep (xs @ ys) = join sep xs @ sep @ join sep ys"
proof (induction sep xs rule: join.induct)
  case (2 sep x)
  then show ?case by (cases ys) auto
qed auto

lemma overlap_loop_spec:
  "overlap_loop ov rs (buf, n) = (buf', n') \<Longrightarrow>
     \<exists>pre post. rs = pre @ post \<and> buf' = rev pre @ buf \<and> n' = n + total_len pre \<and>
       (pre = [] \<or> n' < ov) \<and> (post = [] \<or> ov \<le> n' + int (length (hd post)))"
proof (induction rs arbitrary: buf n)
  case Nil
  then show ?case by simp
next
  case (Cons s rs)
  show ?case
  proof (cases "n + int (length s) < ov")
    case True
    with Cons.prems have "overlap_loop ov rs (s # buf, n + int (length s)) = (buf', n')" by simp
    from Cons.IH[OF this] obtain pre post where
      p: "rs = pre @ post" "buf' = rev pre @ s # buf" "n' = n + int (length s) + total_len pre"
         "pre = [] \<or> n' < ov" "post = [] \<or> ov \<le> n' + int (length (hd post))" by blast
    have "n' < ov" using p(3,4) True by auto
    with p show ?thesis
      by (intro exI[of _ "s # pre"] exI[of _ post]) simp
  next
    case False
    with Cons.prems have "buf' = buf" "n' = n" by simp_all
    with False show ?thesis
      by (intro exI[of _ "[]"] exI[of _ "s # rs"]) simp
  qed
qed

lemma overlap_buffer_spec:
  "\<exists>prev. cur = prev @ overlap_buffer ov cur \<and>
     overlap_loop ov (rev cur) ([], 0) = (overlap_buffer ov cur, total_len (overlap_buffer ov cur)) \<and>
     (overlap_buffer ov cur = [] \<or> total_len (overlap_buffer ov cur) < ov) \<and>
     (prev = [] \<or> ov \<le> total_len (overlap_buffer ov cur) + int (length (last prev)))"
proof -
  obtain b m where e: "overlap_loop ov (rev cur) ([], 0) = (b, m)" by (cases "overlap_loop ov (rev cur) ([], 0)")
  from overlap_loop_spec[OF e] obtain pre post where
    p: "rev cur = pre @ post" "b = rev pre" "m = total_len pre"
       "pre = [] \<or> m < ov" "post = [] \<or> ov \<le> m + int (length (hd post))" by auto
  have c: "cur = rev post @ rev pre" using p(1) by (metis rev_append rev_rev_ident)
  have ob: "overlap_buffer ov cur = rev pre" by (simp add: overlap_buffer_def e p(2))
  have "rev post = [] \<or> ov \<le> m + int (length (last (rev post)))"
    using p(5) by (cases post) auto
  with c ob e p show ?thesis
    by (intro exI[of _ "rev post"]) auto
qed

lemma overlap_buffer_suffix: "suffix (overlap_buffer ov cur) cur"
  using overlap_buffer_spec[of cur ov] by (auto simp: suffix_def)

lemma overlap_buffer_bound: "overlap_buffer ov cur = [] \<or> total_len (overlap_buffer ov cur) < ov"
  using overlap_buffer_spec[of cur ov] by blast

lemma overlap_buffer_all: "total_len cur < ov \<Longrightarrow> overlap_buffer ov cur = cur"
proof -
  assume a: "total_len cur < ov"
  from overlap_buffer_spec[of cur ov] obtain prev where
    p: "cur = prev @ overlap_buffer ov cur"
       "prev = [] \<or> ov \<le> total_len (overlap_buffer ov cur) + int (length (last prev))" by blast
  show ?thesis
  proof (cases "prev = []")
    case True
    with p(1) show ?thesis by simp
  next
    case False
    then have "prev = butlast prev @ [last prev]" by simp
    then have "total_len prev = total_len (butlast prev) + int (length (last prev))"
      by (metis total_len_simps(1,2,3) add.right_neutral)
    then have "int (length (last prev)) \<le> total_len prev" using total_len_nonneg[of "butlast prev"] by simp
    moreover have "total_len cur = total_len prev + total_len (overlap_buffer ov cur)"
      using p(1) by (metis total_len_simps(3))
    ultimately show ?thesis using a p(2) False by simp
  qed
qed

lemma group_loop_Cons: "group_loop cs ov (s # ss) st = group_loop cs ov ss (group_step cs ov s st)"
  using overlap_buffer_spec[of "fst (snd st)" ov]
  by (cases st) (auto simp: group_step_def Let_def)

lemma chunk_loop_groups:
  "chunk_loop cs ov ss (map (join [32]) gs, cur, n) =
     (case group_loop cs ov ss (gs, cur, n) of (gs', cur', n') \<Rightarrow> (map (join [32]) gs', cur', n'))"
proof (induction ss arbitrary: gs cur n)
  case Nil
  show ?case by simp
next
  case (Cons s ss)
  show ?case
  proof (cases "n + int (length s) > cs \<and> cur \<noteq> []")
    case True
    obtain b m where e: "overlap_loop ov (rev cur) ([], 0) = (b, m)"
      by (cases "overlap_loop ov (rev cur) ([], 0)")
    show ?thesis
      using True e Cons.IH[of "gs @ [cur]" "b @ [s]" "m + int (length s)"] by simp
  next
    case False
    then show ?thesis using Cons.IH[of gs "cur @ [s]" "n + int (length s)"] by auto
  qed
qed

lemma chunk_text_groups: "chunk_text t cs ov = map (join [32]) (chunk_groups t cs ov)"
  using chunk_loop_groups[of cs ov "split_sentences t" "[]" "[]" 0]
  by (auto simp: chunk_text_def chunk_groups_def split: prod.splits)


lemma sublist_snoc_right: "sublist xs ys \<Longrightarrow> sublist xs (ys @ [y])"
proof -
  assume "sublist xs ys"
  then obtain ps ss where "ys = ps @ xs @ ss" by (auto simp: sublist_def)
  then have "ys @ [y] = ps @ xs @ (ss @ [y])" by simp
  then show ?thesis unfolding sublist_def by blast
qed

lemma linked_snoc: "linked ov seen a b \<Longrightarrow> linked ov (seen @ [y]) a b"
proof -
  assume "linked ov seen a b"
  then obtain new where "new \<noteq> []" "b = overlap_buffer ov a @ new" "sublist (a @ new) seen"
    unfolding linked_def by blast
  then show ?thesis unfolding linked_def using sublist_snoc_right[of "a @ new" seen y] by blast
qed

lemma successively_linked_snoc:
  "successively (linked ov seen) gs \<Longrightarrow> successively (linked ov (seen @ [y])) gs"
  by (erule successively_mono) (rule linked_snoc)

lemma group_inv_init: "group_inv cs ov [] ([], [], 0)"
  by (simp add: group_inv_def seg_bound_def)

lemma group_inv_step:
  assumes "group_inv cs ov seen st"
  shows "group_inv cs ov (seen @ [s]) (group_step cs ov s st)"
proof -
  obtain gs cur n where st: "st = (gs, cur, n)" by (cases st)
  from assms st have
    n: "n = total_len cur" and suf: "suffix cur seen" and
    emp: "cur = [] \<longrightarrow> gs = [] \<and> seen = []" and
    gsb: "\<forall>g \<in> set gs. g \<noteq> [] \<and> sublist g seen \<and> seg_bound cs ov g" and
    cb: "seg_bound cs ov cur" and
    suc: "successively (linked ov seen) gs" and
    lastp: "gs \<noteq> [] \<longrightarrow> (\<exists>new. new \<noteq> [] \<and> cur = overlap_buffer ov (last gs) @ new \<and>
                        suffix (last gs @ new) seen)"
    by (simp_all add: group_inv_def)
  have gsb': "\<forall>g \<in> set gs. g \<noteq> [] \<and> sublist g (seen @ [s]) \<and> seg_bound cs ov g"
  proof
    fix g assume "g \<in> set gs"
    with gsb have "g \<noteq> []" "sublist g seen" "seg_bound cs ov g" by auto
    then show "g \<noteq> [] \<and> sublist g (seen @ [s]) \<and> seg_bound cs ov g"
      by (simp add: sublist_snoc_right)
  qed
  have suc': "successively (linked ov (seen @ [s])) gs"
    using suc by (rule successively_linked_snoc)
  show ?thesis
  proof (cases "n + int (length s) > cs \<and> cur \<noteq> []")
    case False
    have step: "group_step cs ov s st = (gs, cur @ [s], n + int (length s))"
      using False by (auto simp: group_step_def st)
    have b: "seg_bound cs ov (cur @ [s])"
      using False n by (auto simp: seg_bound_def)
    have l: "gs \<noteq> [] \<longrightarrow> (\<exists>new. new \<noteq> [] \<and> cur @ [s] = overlap_buffer ov (last gs) @ new \<and>
                        suffix (last gs @ new) (seen @ [s]))"
    proof
      assume "gs \<noteq> []"
      with lastp obtain new where
        nw: "new \<noteq> []" "cur = overlap_buffer ov (last gs) @ new" "suffix (last gs @ new) seen" by blast
      have "suffix ((last gs @ new) @ [s]) (seen @ [s])" using nw(3) by (simp only: snoc_suffix_snoc)
      then show "\<exists>new. new \<noteq> [] \<and> cur @ [s] = overlap_buffer ov (last gs) @ new \<and>
                        suffix (last gs @ new) (seen @ [s])"
        using nw(2) by (intro exI[of _ "new @ [s]"]) simp
    qed
    show ?thesis
      unfolding step group_inv_def using n suf gsb' b suc' l by simp
  next
    case True
    then have ne: "cur \<noteq> []" by simp
    define ob where "ob = overlap_buffer ov cur"
    have step: "group_step cs ov s st = (gs @ [cur], ob @ [s], total_len ob + int (length s))"
      using True by (simp add: group_step_def st ob_def)
    have obs: "suffix ob cur" unfolding ob_def by (rule overlap_buffer_suffix)
    have "suffix ob seen" using obs suf by (rule suffix_order.order_trans)
    then have s1: "suffix (ob @ [s]) (seen @ [s])" by (simp only: snoc_suffix_snoc)
    have "sublist cur seen" using suf by (rule suffix_imp_sublist)
    then have subcur: "sublist cur (seen @ [s])" by (rule sublist_snoc_right)
    have g1: "\<forall>g \<in> set (gs @ [cur]). g \<noteq> [] \<and> sublist g (seen @ [s]) \<and> seg_bound cs ov g"
      using gsb' ne subcur cb by simp
    have b: "seg_bound cs ov (ob @ [s])"
      using overlap_buffer_bound[of ov cur] by (auto simp: seg_bound_def ob_def)
    have l1: "successively (linked ov (seen @ [s])) (gs @ [cur])"
    proof (cases "gs = []")
      case True
      then show ?thesis by simp
    next
      case False
      with lastp obtain new where
        nw: "new \<noteq> []" "cur = overlap_buffer ov (last gs) @ new" "suffix (last gs @ new) seen" by blast
      have "sublist (last gs @ new) seen" using nw(3) by (rule suffix_imp_sublist)
      then have "sublist (last gs @ new) (seen @ [s])" by (rule sublist_snoc_right)
      then have "linked ov (seen @ [s]) (last gs) cur"
        unfolding linked_def using nw(1,2) by blast
      then show ?thesis using suc' False by (simp add: successively_append_iff)
    qed
    have "suffix (cur @ [s]) (seen @ [s])" using suf by (simp only: snoc_suffix_snoc)
    then have l2: "\<exists>new. new \<noteq> [] \<and> ob @ [s] = overlap_buffer ov cur @ new \<and>
                        suffix (cur @ new) (seen @ [s])"
      by (intro exI[of _ "[s]"]) (simp add: ob_def)
    show ?thesis
      unfolding step group_inv_def using s1 g1 b l1 l2 by simp
  qed
qed

lemma group_inv_loop:
  "group_inv cs ov seen st \<Longrightarrow> group_inv cs ov (seen @ ss) (group_loop cs ov ss st)"
proof (induction ss arbitrary: seen st)
  case Nil
  then show ?case by simp
next
  case (Cons s ss)
  from Cons.IH[OF group_inv_step[OF Cons.prems, of s]]
  show ?case by (simp add: group_loop_Cons)
qed



lemma split_sentences_from_nonempty: "split_sentences_from cur t \<noteq> []"
  by (induction cur t rule: split_sentences_from.induct) auto

lemma successively_nth:
  "successively P xs \<Longrightarrow> Suc i < length xs \<Longrightarrow> P (xs ! i) (xs ! Suc i)"
proof (induction P xs arbitrary: i rule: successively.induct)
  case (3 P x y xs)
  then show ?case by (cases i) auto
qed auto

lemma chunk_groups_props:
  "(\<forall>g \<in> set (chunk_groups t cs ov). g \<noteq> [] \<and> sublist g (split_sentences t) \<and> seg_bound cs ov g) \<and>
   successively (linked ov (split_sentences t)) (chunk_groups t cs ov)"
proof (cases "t = []")
  case True
  then show ?thesis by (simp add: chunk_groups_def)
next
  case False
  obtain gs cur n where e: "group_loop cs ov (split_sentences t) ([], [], 0) = (gs, cur, n)"
    by (cases "group_loop cs ov (split_sentences t) ([], [], 0)")
  have "group_inv cs ov ([] @ split_sentences t) (group_loop cs ov (split_sentences t) ([], [], 0))"
    by (rule group_inv_loop) (rule group_inv_init)
  then have inv: "group_inv cs ov (split_sentences t) (gs, cur, n)" by (simp add: e)
  have ne: "split_sentences t \<noteq> []" by (simp add: split_sentences_def split_sentences_from_nonempty)
  from inv ne have c: "cur \<noteq> []" by (auto simp: group_inv_def)
  have G: "chunk_groups t cs ov = gs @ [cur]" using False e c by (simp add: chunk_groups_def)
  from inv have
    suf: "suffix cur (split_sentences t)" and
    gsb: "\<forall>g \<in> set gs. g \<noteq> [] \<and> sublist g (split_sentences t) \<and> seg_bound cs ov g" and
    cb: "seg_bound cs ov cur" and
    suc: "successively (linked ov (split_sentences t)) gs" and
    lastp: "gs \<noteq> [] \<longrightarrow> (\<exists>new. new \<noteq> [] \<and> cur = overlap_buffer ov (last gs) @ new \<and>
                        suffix (last gs @ new) (split_sentences t))"
    by (simp_all add: group_inv_def)
  have sc: "sublist cur (split_sentences t)" using suf by (rule suffix_imp_sublist)
  have 1: "\<forall>g \<in> set (gs @ [cur]). g \<noteq> [] \<and> sublist g (split_sentences t) \<and> seg_bound cs ov g"
    using gsb c sc cb by simp
  have 2: "successively (linked ov (split_sentences t)) (gs @ [cur])"
  proof (cases "gs = []")
    case True
    then show ?thesis by simp
  next
    case False
    with lastp obtain new where
      nw: "new \<noteq> []" "cur = overlap_buffer ov (last gs) @ new"
          "suffix (last gs @ new) (split_sentences t)" by blast
    have "sublist (last gs @ new) (split_sentences t)" using nw(3) by (rule suffix_imp_sublist)
    then have "linked ov (split_sentences t) (last gs) cur"
      unfolding linked_def using nw(1,2) by blast
    then show ?thesis using suc False by (simp add: successively_append_iff)
  qed
  show ?thesis unfolding G using 1 2 by blast
qed

lemma chunk_groups_linked:
  assumes "Suc n < length (chunk_groups t cs ov)"
  shows "linked ov (split_sentences t) (chunk_groups t cs ov ! n) (chunk_groups t cs ov ! Suc n)"
  using chunk_groups_props[of t cs ov] assms successively_nth by blast

lemma chunk_groups_nth:
  assumes "n < length (chunk_groups t cs ov)"
  shows "chunk_groups t cs ov ! n \<noteq> [] \<and> sublist (chunk_groups t cs ov ! n) (split_sentences t) \<and>
         seg_bound cs ov (chunk_groups t cs ov ! n)"
  using chunk_groups_props[of t cs ov] assms nth_mem by blast

text \<open>Splitting a text made of one sentence repeated, and evaluation on concrete inputs.\<close>

lemma split_from_plain:
  "\<forall>c \<in> set w. \<not> is_sentence_end c \<Longrightarrow>
     split_sentences_from cur (w @ rest) = split_sentences_from (cur @ w) rest"
  by (induction w arbitrary: cur) auto

lemma split_from_end:
  "is_sentence_end e \<Longrightarrow> is_space d \<Longrightarrow> rest = [] \<or> \<not> is_space (hd rest) \<Longrightarrow>
     split_sentences_from cur (e # d # rest) = (cur @ [e]) # split_sentences_from [] rest"
  by (cases rest) auto

lemma split_join_replicate:
  assumes "\<forall>c \<in> set w. \<not> is_sentence_end c" "is_sentence_end e" "w \<noteq> []" "\<not> is_space (hd w)"
  shows "split_sentences (join [32] (replicate (Suc n) (w @ [e]))) = replicate (Suc n) (w @ [e])"
proof (induction n)
  case 0
  show ?case using assms(1) split_from_plain[of w "[]" "[e]"] by (simp add: split_sentences_def)
next
  case (Suc n)
  let ?r = "join [32] (replicate (Suc n) (w @ [e]))"
  have h: "?r \<noteq> [] \<and> hd ?r = hd w" using assms(3) by (cases n) auto
  have "split_sentences_from [] (w @ e # 32 # ?r) = split_sentences_from w (e # 32 # ?r)"
    using split_from_plain[OF assms(1), of "[]" "e # 32 # ?r"] by simp
  also have "\<dots> = (w @ [e]) # split_sentences_from [] ?r"
    using h assms(4) by (intro split_from_end assms(2)) (simp_all add: is_space_def)
  finally show ?case using Suc by (simp add: split_sentences_def)
qed

lemma join_replicate_nonempty: "s \<noteq> [] \<Longrightarrow> join sep (replicate (Suc n) s) \<noteq> []"
  by (cases n) auto

lemma total_len_replicate: "total_len (replicate n s) = int n * int (length s)"
  by (induction n) (auto simp: algebra_simps)

lemma chunk_loop_26:
  "length S = 20 \<Longrightarrow> chunk_loop 500 50 (replicate 26 S) ([], [], 0) =
     ([join [32] (replicate 25 S)], replicate 3 S, 60)"
  by (simp add: eval_nat_numeral)

lemmas chunk_eval =
  chunk_text_def split_sentences_def py_def is_space_def is_sentence_end_def Let_def overlap_buffer_def

section \<open>Claims about chunk_text\<close>

text \<open>
  Claim C1, as the code has it. With \<open>chunk_size = 500\<close> and \<open>overlap = 50\<close>, every
  chunk is the join, with single spaces, of one or more consecutive sentences of the
  text. The lengths of these sentences sum to at most 500, unless the chunk is a
  carried-over seed of fewer than 50 characters followed by exactly one sentence (a
  single sentence is the case of an empty seed). The running length that the code
  compares with \<open>chunk_size\<close> leaves out the joining spaces, so the chunk itself is
  longer than that sum by the number of its sentences less one.
\<close>

theorem chunk_text_size_bound:
  assumes "seg \<in> set (chunk_text t 500 50)"
  shows "\<exists>ss. ss \<noteq> [] \<and> sublist ss (split_sentences t) \<and> seg = join [32] ss \<and>
           (total_len ss \<le> 500 \<or> total_len (butlast ss) < 50) \<and>
           int (length seg) = total_len ss + (int (length ss) - 1)"
proof -
  from assms obtain ss where ss: "ss \<in> set (chunk_groups t 500 50)" "seg = join [32] ss"
    by (auto simp: chunk_text_groups)
  from ss(1) chunk_groups_props[of t 500 50] have
    p: "ss \<noteq> []" "sublist ss (split_sentences t)" "seg_bound 500 50 ss" by auto
  from p(3) have "total_len ss \<le> 500 \<or> total_len (butlast ss) < 50"
    by (auto simp: seg_bound_def)
  moreover have "int (length seg) = total_len ss + (int (length ss) - 1)"
    using length_join[OF p(1)] ss(2) by simp
  ultimately show ?thesis using p(1,2) ss(2) by blast
qed

theorem chunk_text_size_bound_witness:
  "py ''Aa. Bb.'' \<in> set (chunk_text (py ''Aa. Bb.'') 500 50) \<and>
   (\<exists>ss. ss \<noteq> [] \<and> sublist ss (split_sentences (py ''Aa. Bb.'')) \<and> py ''Aa. Bb.'' = join [32] ss \<and>
      (total_len ss \<le> 500 \<or> total_len (butlast ss) < 50) \<and>
      int (length (py ''Aa. Bb.'')) = total_len ss + (int (length ss) - 1))"
proof -
  have h: "py ''Aa. Bb.'' \<in> set (chunk_text (py ''Aa. Bb.'') 500 50)"
    by (simp add: chunk_eval)
  show ?thesis using h chunk_text_size_bound[OF h] by blast
qed

text \<open>
  The claim as stated fails. The text is the 20-character sentence
  \<^verbatim>\<open>We built the system.\<close> 26 times, separated by single spaces. The first chunk holds
  25 sentences: 500 characters of sentences and 24 joining spaces, 524 characters,
  which is more than 500 plus the 20 characters of any sentence of the text.
\<close>

theorem chunk_text_size_counterexample:
  "chunk_text (join [32] (replicate 26 (py ''We built the system.''))) 500 50 =
     [join [32] (replicate 25 (py ''We built the system.'')),
      join [32] (replicate 3 (py ''We built the system.''))] \<and>
   split_sentences (join [32] (replicate 26 (py ''We built the system.''))) =
     replicate 26 (py ''We built the system.'') \<and>
   length (py ''We built the system.'') = 20 \<and>
   length (join [32] (replicate 25 (py ''We built the system.''))) = 524"
proof -
  define w where "w = py ''We built the system''"
  define S where "S = py ''We built the system.''"
  have S: "S = w @ [46]" by (simp add: S_def w_def py_def)
  have l: "length S = 20" by (simp add: S_def py_def)
  have "split_sentences (join [32] (replicate (Suc 25) (w @ [46]))) = replicate (Suc 25) (w @ [46])"
    by (rule split_join_replicate) (simp_all add: w_def py_def is_sentence_end_def is_space_def)
  then have sp: "split_sentences (join [32] (replicate 26 S)) = replicate 26 S"
    by (simp add: S)
  have "join [32] (replicate (Suc 25) S) \<noteq> []"
    by (rule join_replicate_nonempty) (simp add: S)
  then have ne: "join [32] (replicate 26 S) \<noteq> []" by simp
  have c: "chunk_text (join [32] (replicate 26 S)) 500 50 =
             [join [32] (replicate 25 S), join [32] (replicate 3 S)]"
    by (simp add: chunk_text_def ne sp chunk_loop_26[OF l])
  have "int (length (join [32] (replicate 25 S))) = total_len (replicate 25 S) + int (length (replicate 25 S)) - 1"
    by (rule length_join) simp
  then have j: "length (join [32] (replicate 25 S)) = 524"
    by (simp add: total_len_replicate l)
  show ?thesis using c sp l j unfolding S_def by simp
qed

text \<open>
  Claim C2, as the code has it. For two consecutive chunks, the sentences of the first
  are \<open>prev @ seed\<close> and those of the second are \<open>seed @ new\<close> with \<open>new\<close> not
  empty, all of them consecutive sentences of the text. The seed is the result of the
  overlap loop on the first chunk: the longest run of its last sentences whose lengths
  sum to less than \<open>overlap\<close>. The seed is empty when the last sentence alone has
  \<open>overlap\<close> characters or more.
\<close>

theorem chunk_text_carry_over:
  assumes "Suc n < length (chunk_text t cs ov)"
  shows "\<exists>prev seed new.
           chunk_text t cs ov ! n = join [32] (prev @ seed) \<and>
           chunk_text t cs ov ! Suc n = join [32] (seed @ new) \<and>
           sublist (prev @ seed @ new) (split_sentences t) \<and> new \<noteq> [] \<and>
           seed = overlap_buffer ov (prev @ seed) \<and>
           (seed = [] \<or> total_len seed < ov) \<and>
           (prev = [] \<or> ov \<le> total_len seed + int (length (last prev)))"
proof -
  define a where "a = chunk_groups t cs ov ! n"
  define b where "b = chunk_groups t cs ov ! Suc n"
  have len: "Suc n < length (chunk_groups t cs ov)" using assms by (simp add: chunk_text_groups)
  have ca: "chunk_text t cs ov ! n = join [32] a" using len by (simp add: chunk_text_groups a_def)
  have cb: "chunk_text t cs ov ! Suc n = join [32] b" using len by (simp add: chunk_text_groups b_def)
  from chunk_groups_linked[OF len] obtain new where
    nw: "new \<noteq> []" "b = overlap_buffer ov a @ new" "sublist (a @ new) (split_sentences t)"
    unfolding linked_def a_def b_def by blast
  from overlap_buffer_spec[of a ov] obtain prev where
    pv: "a = prev @ overlap_buffer ov a"
        "overlap_buffer ov a = [] \<or> total_len (overlap_buffer ov a) < ov"
        "prev = [] \<or> ov \<le> total_len (overlap_buffer ov a) + int (length (last prev))" by blast
  define seed where "seed = overlap_buffer ov a"
  have 1: "chunk_text t cs ov ! n = join [32] (prev @ seed)" using ca pv(1) by (simp add: seed_def)
  have 2: "chunk_text t cs ov ! Suc n = join [32] (seed @ new)" using cb nw(2) by (simp add: seed_def)
  have 3: "sublist (prev @ seed @ new) (split_sentences t)"
    using nw(3) pv(1) by (simp add: seed_def) (metis append.assoc)
  have 4: "seed = overlap_buffer ov (prev @ seed)" using pv(1) by (simp add: seed_def)
  have 5: "seed = [] \<or> total_len seed < ov" using pv(2) by (simp add: seed_def)
  have 6: "prev = [] \<or> ov \<le> total_len seed + int (length (last prev))" using pv(3) by (simp add: seed_def)
  show ?thesis using 1 2 3 nw(1) 4 5 6 by blast
qed

theorem chunk_text_carry_over_witness:
  "Suc 0 < length (chunk_text (py ''Aa. Bb. Cc. Dd.'') 10 9) \<and>
   (\<exists>prev seed new.
      chunk_text (py ''Aa. Bb. Cc. Dd.'') 10 9 ! 0 = join [32] (prev @ seed) \<and>
      chunk_text (py ''Aa. Bb. Cc. Dd.'') 10 9 ! Suc 0 = join [32] (seed @ new) \<and>
      sublist (prev @ seed @ new) (split_sentences (py ''Aa. Bb. Cc. Dd.'')) \<and> new \<noteq> [] \<and>
      seed = overlap_buffer 9 (prev @ seed) \<and>
      (seed = [] \<or> total_len seed < 9) \<and>
      (prev = [] \<or> 9 \<le> total_len seed + int (length (last prev))))"
proof -
  have h: "Suc 0 < length (chunk_text (py ''Aa. Bb. Cc. Dd.'') 10 9)"
    by (simp add: chunk_eval)
  show ?thesis using h chunk_text_carry_over[OF h] by blast
qed

text \<open>
  The claim as stated fails on the scenario of the specification. With
  \<open>chunk_size = 40\<close> and \<open>overlap = 10\<close> the three sentences become three chunks, and
  nothing is carried over: the overlap loop keeps nothing of the 26-character first
  chunk, and the first character of the second chunk does not even occur in the first.
\<close>

theorem chunk_text_carry_over_counterexample:
  "chunk_text (py ''Experience: Built systems. Reduced latency by 40%. Led a team of 5 engineers.'') 40 10 =
     [py ''Experience: Built systems.'', py ''Reduced latency by 40%.'', py ''Led a team of 5 engineers.''] \<and>
   overlap_buffer 10 [py ''Experience: Built systems.''] = [] \<and>
   hd (py ''Reduced latency by 40%.'') \<notin> set (py ''Experience: Built systems.'')"
  by (simp add: chunk_eval)

text \<open>
  Claim C3, as the code has it. \<open>chunk_text\<close> has no failing path, and it uses
  \<open>overlap\<close> as given: nothing caps it. A chunk shorter than \<open>overlap\<close> is carried
  over whole, so the next chunk starts with it, followed by a space. With
  \<open>overlap > chunk_size\<close> this is every chunk of at most \<open>chunk_size\<close> characters.
\<close>

theorem chunk_text_overlap_uncapped:
  assumes "Suc n < length (chunk_text t cs ov)"
    and "int (length (chunk_text t cs ov ! n)) < ov"
  shows "prefix (chunk_text t cs ov ! n @ [32]) (chunk_text t cs ov ! Suc n)"
proof -
  define a where "a = chunk_groups t cs ov ! n"
  define b where "b = chunk_groups t cs ov ! Suc n"
  have len: "Suc n < length (chunk_groups t cs ov)" using assms(1) by (simp add: chunk_text_groups)
  have ca: "chunk_text t cs ov ! n = join [32] a" using len by (simp add: chunk_text_groups a_def)
  have cb: "chunk_text t cs ov ! Suc n = join [32] b" using len by (simp add: chunk_text_groups b_def)
  have ane: "a \<noteq> []" using chunk_groups_nth[of n t cs ov] len by (simp add: a_def)
  from chunk_groups_linked[OF len] obtain new where
    nw: "new \<noteq> []" "b = overlap_buffer ov a @ new"
    unfolding linked_def a_def b_def by blast
  have "int (length (join [32] a)) = total_len a + int (length a) - 1" using ane by (rule length_join)
  moreover have "1 \<le> int (length a)" using ane by (cases a) auto
  ultimately have "total_len a < ov" using assms(2) ca by simp
  then have "overlap_buffer ov a = a" by (rule overlap_buffer_all)
  with nw have "b = a @ new" by simp
  then have "join [32] b = join [32] a @ [32] @ join [32] new" using ane nw(1) by (simp add: join_append)
  then show ?thesis unfolding ca cb by (simp add: prefix_def)
qed

theorem chunk_text_overlap_uncapped_witness:
  "Suc 0 < length (chunk_text (py ''Aa. Bb. Cc. Dd.'') 10 100) \<and>
   int (length (chunk_text (py ''Aa. Bb. Cc. Dd.'') 10 100 ! 0)) < 100 \<and>
   prefix (chunk_text (py ''Aa. Bb. Cc. Dd.'') 10 100 ! 0 @ [32])
          (chunk_text (py ''Aa. Bb. Cc. Dd.'') 10 100 ! Suc 0)"
proof -
  have h1: "Suc 0 < length (chunk_text (py ''Aa. Bb. Cc. Dd.'') 10 100)"
    by (simp add: chunk_eval)
  have h2: "int (length (chunk_text (py ''Aa. Bb. Cc. Dd.'') 10 100 ! 0)) < 100"
    by (simp add: chunk_eval)
  show ?thesis using h1 h2 chunk_text_overlap_uncapped[OF h1 h2] by blast
qed

text \<open>
  The claim as stated fails: with \<open>chunk_size = 10\<close>, an overlap of 100 and the
  capped overlap 9 give different chunks.
\<close>

theorem chunk_text_overlap_cap_counterexample:
  "chunk_text (py ''Aa. Bb. Cc. Dd.'') 10 100 = [py ''Aa. Bb. Cc.'', py ''Aa. Bb. Cc. Dd.''] \<and>
   chunk_text (py ''Aa. Bb. Cc. Dd.'') 10 (10 - 1) = [py ''Aa. Bb. Cc.'', py ''Bb. Cc. Dd.''] \<and>
   chunk_text (py ''Aa. Bb. Cc. Dd.'') 10 100 \<noteq> chunk_text (py ''Aa. Bb. Cc. Dd.'') 10 (10 - 1)"
  by (simp add: chunk_eval)

section \<open>Claims about create_document_chunks\<close>

lemma map_snd_enumerate_index:
  "map (\<lambda>x. chunk_index (metadata (case x of (i, c) \<Rightarrow>
      \<lparr> text_field = c, metadata = doc_metadata.extend md (chunk_metadata.fields i) \<rparr>)))
     (enumerate n xs) = [n..<n + length xs]"
  by (induction xs arbitrary: n) (auto simp: doc_metadata.extend_def chunk_metadata.fields_def upt_rec)

text \<open>
  Claim C5. The chunks returned by \<open>create_document_chunks\<close> carry the indices
  \<open>0, 1, \<dots>, k - 1\<close> in this order, where \<open>k\<close> is the number of chunks returned.
  This holds for every document, with or without content.
\<close>

theorem create_document_chunks_indices:
  "map (\<lambda>c. chunk_index (metadata c)) (create_document_chunks now doc) =
     [0..<length (create_document_chunks now doc)]"
  by (simp add: create_document_chunks_def Let_def comp_def map_snd_enumerate_index)

theorem create_document_chunks_indices_witness:
  "map (\<lambda>c. chunk_index (metadata c))
     (create_document_chunks (py ''2024'') [''content'' \<mapsto> py ''Aa. Bb.'']) = [0..<1]"
proof -
  have "length (create_document_chunks (py ''2024'') [''content'' \<mapsto> py ''Aa. Bb.'']) = 1"
    by (simp add: create_document_chunks_def doc_get_def clean_text_def strip_def is_kept_def
          chunk_eval)
  then show ?thesis
    using create_document_chunks_indices[of "py ''2024''" "[''content'' \<mapsto> py ''Aa. Bb.'']"] by simp
qed

section \<open>Claims about the pipeline\<close>

text \<open>
  Claim C6. For a non-empty list of chunks, when the embedding of the texts raises or
  returns the empty list, \<open>add_documents\<close> leaves the collection as it was (the
  upsert is not reached), and it returns: the last line it logs is the error line of
  the abort.
\<close>

theorem add_documents_embedding_failure:
  assumes "chunks \<noteq> []"
    and "fst (embed_documents p (map text_field chunks) (service w)) = Inl e \<or>
         fst (embed_documents p (map text_field chunks) (service w)) = Inr []"
  shows "collection (fst (add_documents p chunks w)) = collection w \<and>
         snd (add_documents p chunks w) \<noteq> [] \<and>
         last (snd (add_documents p chunks w)) =
           (ERROR, py ''Failed to generate embeddings. Aborting add_documents.'')"
proof -
  obtain r s' where e: "embed_documents p (map text_field chunks) (service w) = (r, s')"
    by (cases "embed_documents p (map text_field chunks) (service w)")
  with assms(2) have "r = Inl e \<or> r = Inr []" by simp
  then have "\<exists>lg. create_embeddings p (map text_field chunks) (service w) = (([], lg), s')"
    using assms(1) e by (auto simp: create_embeddings_def)
  then obtain lg where "create_embeddings p (map text_field chunks) (service w) = (([], lg), s')" ..
  then show ?thesis
    using assms(1) by (simp add: add_documents_def Let_def)
qed

theorem add_documents_embedding_failure_witness:
  "[sample_chunk] \<noteq> [] \<and>
   fst (embed_documents sample_pipeline (map text_field [sample_chunk]) (service sample_world)) =
     Inl (ServiceError (py ''quota exceeded'')) \<and>
   collection (fst (add_documents sample_pipeline [sample_chunk] sample_world)) = Some 0 \<and>
   snd (add_documents sample_pipeline [sample_chunk] sample_world) \<noteq> [] \<and>
   last (snd (add_documents sample_pipeline [sample_chunk] sample_world)) =
     (ERROR, py ''Failed to generate embeddings. Aborting add_documents.'')"
proof -
  have h1: "[sample_chunk] \<noteq> []" by simp
  have h2: "fst (embed_documents sample_pipeline (map text_field [sample_chunk]) (service sample_world)) =
     Inl (ServiceError (py ''quota exceeded''))" by (simp add: sample_pipeline_def)
  have c: "collection sample_world = Some 0" by (simp add: sample_world_def)
  show ?thesis
    using add_documents_embedding_failure[OF h1 disjI1[OF h2]] h1 h2 c by simp
qed

section \<open>Claims about the generator\<close>

text \<open>
  Claim C7. \<open>retrieve_context\<close> returns the fixed sentence when the search returns
  the empty list, and otherwise the texts of the results joined by two newlines, in
  the order in which the search returned them.
\<close>

theorem retrieve_context_result:
  assumes "search_similar (pipeline g) query_text n_results w = (results, w')"
  shows "fst (retrieve_context g query_text n_results w) =
           (if results = [] then py ''No relevant background information available.''
            else join [10, 10] (map result_text results))"
  using assms by (simp add: retrieve_context_def)

theorem retrieve_context_result_witness:
  "search_similar (pipeline (sample_generator [])) (py ''python'') 3 sample_world =
     ([\<lparr>result_id = py ''cv.txt_0'', result_text = py ''Led a team.'',
        result_metadata = sample_metadata, result_distance = None\<rparr>],
      \<lparr>collection = Some 0, service = 1\<rparr>) \<and>
   fst (retrieve_context (sample_generator []) (py ''python'') 3 sample_world) = py ''Led a team.''"
proof -
  have h: "search_similar (pipeline (sample_generator [])) (py ''python'') 3 sample_world =
     ([\<lparr>result_id = py ''cv.txt_0'', result_text = py ''Led a team.'',
        result_metadata = sample_metadata, result_distance = None\<rparr>],
      \<lparr>collection = Some 0, service = 1\<rparr>)"
    by (simp add: sample_generator_def sample_pipeline_def sample_world_def
          search_similar_def format_results_def format_row_def item_def)
  show ?thesis using h retrieve_context_result[OF h] by simp
qed

lemma format_template_error:
  "format_template t kwargs = Inl e \<Longrightarrow> \<exists>k. e = KeyError (py k)"
  by (induction t kwargs arbitrary: e rule: format_template.induct)
     (auto split: sum.splits option.splits)

lemma get_prompt_error: "get_prompt ps t kwargs = Inl e \<Longrightarrow> \<exists>m. e = ValueError m"
  by (auto simp: get_prompt_def split: option.splits sum.splits py_exception.splits
      dest: format_template_error)

lemma get_prompt_resume_bullets:
  "get_prompt (source_prompts lits) ''resume_bullets''
     [''job_description'' \<mapsto> jd, ''context'' \<mapsto> c, ''name'' \<mapsto> n] =
   Inr (resume_bullets_prompt (lits ''resume_bullets'') jd c n)"
  by (simp add: get_prompt_def source_prompts_def RESUME_BULLET_PROMPT_def resume_bullets_prompt_def)

lemma get_prompt_cover_letter:
  "get_prompt (source_prompts lits) ''cover_letter''
     [''job_description'' \<mapsto> jd, ''company_name'' \<mapsto> co, ''role_title'' \<mapsto> ro, ''context'' \<mapsto> c] =
   Inr (cover_letter_prompt (lits ''cover_letter'') jd co ro c)"
  by (simp add: get_prompt_def source_prompts_def COVER_LETTER_PROMPT_def cover_letter_prompt_def)

lemma get_prompt_ats_analysis:
  "get_prompt (source_prompts lits) ''ats_analysis''
     [''job_description'' \<mapsto> jd, ''resume_content'' \<mapsto> rc] =
   Inr (ats_analysis_prompt (lits ''ats_analysis'') jd rc)"
  by (simp add: get_prompt_def source_prompts_def ATS_ANALYSIS_PROMPT_def ats_analysis_prompt_def)

lemma get_prompt_linkedin_message:
  "get_prompt (source_prompts lits) ''linkedin_message''
     [''job_description'' \<mapsto> jd, ''company_name'' \<mapsto> co, ''role_title'' \<mapsto> ro, ''achievement'' \<mapsto> a] =
   Inr (linkedin_message_prompt (lits ''linkedin_message'') jd co ro a)"
  by (simp add: get_prompt_def source_prompts_def LINKEDIN_MESSAGE_PROMPT_def linkedin_message_prompt_def)

lemma completion_cases:
  "(case x of (Inl e, w) \<Rightarrow> (error_text e, w) | (Inr r, w) \<Rightarrow> (r, w)) = (completion (fst x), snd x)"
  by (cases x) (auto split: sum.splits)

text \<open>
  Claim C8. With the templates of the source every prompt renders, so the text of each
  of the four results depends on the outcome of its own call of the model only: the
  text of the response when the call returns, and the placeholder \<^verbatim>\<open>Error: \<close>
  followed by the message when it raises. \<open>generate_all\<close> returns the four texts on
  every path. When exactly one of \<open>o1\<close>, \<open>o2\<close>, \<open>o3\<close>, \<open>o4\<close> is an exception,
  the other three results are the responses of the model.
\<close>

theorem generate_all_isolates_failures:
  assumes "prompts g = source_prompts lits"
    and "retrieve_context g jd 5 w0 = (c1, w1)"
    and "llm_content g (resume_bullets_prompt (lits ''resume_bullets'') jd c1 name) w1 = (o1, w2)"
    and "retrieve_context g jd 5 w2 = (c2, w3)"
    and "llm_content g (cover_letter_prompt (lits ''cover_letter'') jd company role c2) w3 = (o2, w4)"
    and "ats_resume_content g resume w4 = (rc, w5)"
    and "llm_content g (ats_analysis_prompt (lits ''ats_analysis'') jd rc) w5 = (o3, w6)"
    and "search_similar (pipeline g) jd 1 w6 = (rs, w7)"
    and "llm_content g (linkedin_message_prompt (lits ''linkedin_message'') jd company role
           (achievement_of rs)) w7 = (o4, w8)"
  shows "generate_all g jd company role name resume w0 =
           (\<lparr>resume_bullets = completion o1, cover_letter = completion o2,
             ats_analysis = completion o3, linkedin_message = completion o4\<rparr>, w8)"
proof -
  have 1: "generate_resume_bullets g jd name w0 = (completion o1, w2)"
    using assms(1,2,3)
    by (simp add: generate_resume_bullets_def get_prompt_resume_bullets completion_cases)
  have 2: "generate_cover_letter g jd company role w2 = (completion o2, w4)"
    using assms(1,4,5)
    by (simp add: generate_cover_letter_def get_prompt_cover_letter completion_cases)
  have 3: "generate_ats_analysis g jd resume w4 = (completion o3, w6)"
    using assms(1,6,7)
    by (simp add: generate_ats_analysis_def get_prompt_ats_analysis completion_cases)
  have 4: "generate_linkedin_message g jd company role w6 = (completion o4, w8)"
    using assms(1,8,9)
    by (simp add: generate_linkedin_message_def get_prompt_linkedin_message completion_cases)
  show ?thesis by (simp add: generate_all_def 1 2 3 4)
qed

theorem generate_all_isolates_failures_witness:
  "prompts (sample_generator (source_prompts (\<lambda>t i. []))) = source_prompts (\<lambda>t i. []) \<and>
   retrieve_context (sample_generator (source_prompts (\<lambda>t i. []))) (py ''Data engineer'') 5 sample_world =
     (py ''Led a team.'', \<lparr>collection = Some 0, service = 1\<rparr>) \<and>
   llm_content (sample_generator (source_prompts (\<lambda>t i. [])))
     (resume_bullets_prompt (\<lambda>i. []) (py ''Data engineer'') (py ''Led a team.'') (py ''Ada''))
     \<lparr>collection = Some 0, service = 1\<rparr> = (Inr (py ''ok''), \<lparr>collection = Some 0, service = 2\<rparr>) \<and>
   retrieve_context (sample_generator (source_prompts (\<lambda>t i. []))) (py ''Data engineer'') 5
     \<lparr>collection = Some 0, service = 2\<rparr> = (py ''Led a team.'', \<lparr>collection = Some 0, service = 3\<rparr>) \<and>
   llm_content (sample_generator (source_prompts (\<lambda>t i. [])))
     (cover_letter_prompt (\<lambda>i. []) (py ''Data engineer'') (py ''Acme'') (py ''Engineer'') (py ''Led a team.''))
     \<lparr>collection = Some 0, service = 3\<rparr> =
     (Inl (ServiceError (py ''timeout'')), \<lparr>collection = Some 0, service = 4\<rparr>) \<and>
   ats_resume_content (sample_generator (source_prompts (\<lambda>t i. []))) (py ''CV'')
     \<lparr>collection = Some 0, service = 4\<rparr> = (py ''CV'', \<lparr>collection = Some 0, service = 4\<rparr>) \<and>
   llm_content (sample_generator (source_prompts (\<lambda>t i. [])))
     (ats_analysis_prompt (\<lambda>i. []) (py ''Data engineer'') (py ''CV''))
     \<lparr>collection = Some 0, service = 4\<rparr> = (Inr (py ''ok''), \<lparr>collection = Some 0, service = 5\<rparr>) \<and>
   search_similar (pipeline (sample_generator (source_prompts (\<lambda>t i. [])))) (py ''Data engineer'') 1
     \<lparr>collection = Some 0, service = 5\<rparr> =
     ([\<lparr>result_id = py ''cv.txt_0'', result_text = py ''Led a team.'',
        result_metadata = sample_metadata, result_distance = None\<rparr>],
      \<lparr>collection = Some 0, service = 6\<rparr>) \<and>
   llm_content (sample_generator (source_prompts (\<lambda>t i. [])))
     (linkedin_message_prompt (\<lambda>i. []) (py ''Data engineer'') (py ''Acme'') (py ''Engineer'')
        (achievement_of [\<lparr>result_id = py ''cv.txt_0'', result_text = py ''Led a team.'',
                          result_metadata = sample_metadata,
                          result_distance = (None :: unit option)\<rparr>]))
     \<lparr>collection = Some 0, service = 6\<rparr> = (Inr (py ''ok''), \<lparr>collection = Some 0, service = 7\<rparr>) \<and>
   generate_all (sample_generator (source_prompts (\<lambda>t i. []))) (py ''Data engineer'') (py ''Acme'')
     (py ''Engineer'') (py ''Ada'') (py ''CV'') sample_world =
     (\<lparr>resume_bullets = py ''ok'', cover_letter = py ''Error: timeout'',
       ats_analysis = py ''ok'', linkedin_message = py ''ok''\<rparr>,
      \<lparr>collection = Some 0, service = 7\<rparr>)"
proof -
  define g where "g = sample_generator (source_prompts (\<lambda>t i. []))"
  define r where "r = \<lparr>result_id = py ''cv.txt_0'', result_text = py ''Led a team.'',
        result_metadata = sample_metadata, result_distance = (None :: unit option)\<rparr>"
  have h1: "prompts g = source_prompts (\<lambda>t i. [])" by (simp add: g_def sample_generator_def)
  have s: "\<And>q n k. search_similar (pipeline g) q n \<lparr>collection = Some 0, service = k\<rparr> =
             ([r], \<lparr>collection = Some 0, service = Suc k\<rparr>)"
    by (simp add: g_def r_def sample_generator_def sample_pipeline_def
          search_similar_def format_results_def format_row_def item_def)
  have rc: "\<And>q n k. retrieve_context g q n \<lparr>collection = Some 0, service = k\<rparr> =
             (py ''Led a team.'', \<lparr>collection = Some 0, service = Suc k\<rparr>)"
    by (simp add: retrieve_context_def s) (simp add: r_def)
  have l: "\<And>p k. llm_content g p \<lparr>collection = Some 0, service = k\<rparr> =
             (if k = 3 then Inl (ServiceError (py ''timeout'')) else Inr (py ''ok''),
              \<lparr>collection = Some 0, service = Suc k\<rparr>)"
    by (simp add: llm_content_def g_def sample_generator_def)
  have h2: "retrieve_context g (py ''Data engineer'') 5 sample_world =
     (py ''Led a team.'', \<lparr>collection = Some 0, service = 1\<rparr>)"
    unfolding sample_world_def by (simp add: rc)
  have h3: "llm_content g
     (resume_bullets_prompt (\<lambda>i. []) (py ''Data engineer'') (py ''Led a team.'') (py ''Ada''))
     \<lparr>collection = Some 0, service = 1\<rparr> = (Inr (py ''ok''), \<lparr>collection = Some 0, service = 2\<rparr>)"
    by (simp add: l)
  have h4: "retrieve_context g (py ''Data engineer'') 5
     \<lparr>collection = Some 0, service = 2\<rparr> = (py ''Led a team.'', \<lparr>collection = Some 0, service = 3\<rparr>)"
    by (simp add: rc)
  have h5: "llm_content g
     (cover_letter_prompt (\<lambda>i. []) (py ''Data engineer'') (py ''Acme'') (py ''Engineer'') (py ''Led a team.''))
     \<lparr>collection = Some 0, service = 3\<rparr> =
     (Inl (ServiceError (py ''timeout'')), \<lparr>collection = Some 0, service = 4\<rparr>)"
    by (simp add: l)
  have h6: "ats_resume_content g (py ''CV'')
     \<lparr>collection = Some 0, service = 4\<rparr> = (py ''CV'', \<lparr>collection = Some 0, service = 4\<rparr>)"
    by (simp add: ats_resume_content_def py_def strip_def is_space_def)
  have h7: "llm_content g
     (ats_analysis_prompt (\<lambda>i. []) (py ''Data engineer'') (py ''CV''))
     \<lparr>collection = Some 0, service = 4\<rparr> = (Inr (py ''ok''), \<lparr>collection = Some 0, service = 5\<rparr>)"
    by (simp add: l)
  have h8: "search_similar (pipeline g) (py ''Data engineer'') 1
     \<lparr>collection = Some 0, service = 5\<rparr> = ([r], \<lparr>collection = Some 0, service = 6\<rparr>)"
    by (simp add: s)
  have h9: "llm_content g
     (linkedin_message_prompt (\<lambda>i. []) (py ''Data engineer'') (py ''Acme'') (py ''Engineer'')
        (achievement_of [r]))
     \<lparr>collection = Some 0, service = 6\<rparr> = (Inr (py ''ok''), \<lparr>collection = Some 0, service = 7\<rparr>)"
    by (simp add: l)
  have e: "error_text (ServiceError (py ''timeout'')) = py ''Error: timeout''"
    by (simp add: error_text_def py_def)
  have c: "generate_all g (py ''Data engineer'') (py ''Acme'') (py ''Engineer'') (py ''Ada'') (py ''CV'')
             sample_world =
     (\<lparr>resume_bullets = py ''ok'', cover_letter = py ''Error: timeout'',
       ats_analysis = py ''ok'', linkedin_message = py ''ok''\<rparr>,
      \<lparr>collection = Some 0, service = 7\<rparr>)"
    using generate_all_isolates_failures[OF h1 h2 h3 h4 h5 h6 h7 h8 h9] by (simp add: e)
  show ?thesis
    unfolding g_def[symmetric] r_def[symmetric]
    by (intro conjI) (rule h1 h2 h3 h4 h5 h6 h7 h8 h9 c)+
qed

section \<open>Rendering errors\<close>

text \<open>
  \<open>get_prompt\<close> raises \<^verbatim>\<open>ValueError\<close> to its caller for a name that the dictionary
  lacks and for a field that the keyword arguments lack (the \<^verbatim>\<open>KeyError\<close> of
  \<^verbatim>\<open>format\<close> is raised again as a \<^verbatim>\<open>ValueError\<close>). The last two lemmas are calls
  on the dictionary of the source.
\<close>

lemma get_prompt_unknown_type:
  "map_of ps t = None \<Longrightarrow>
     get_prompt ps t kwargs =
       Inl (ValueError (py ''Unknown prompt type: '' @ py t @ py ''. Valid types: '' @
                        repr_list (map fst ps)))"
  by (simp add: get_prompt_def)

lemma get_prompt_missing_field:
  "map_of ps t = Some tpl \<Longrightarrow> format_template tpl kwargs = Inl (KeyError k) \<Longrightarrow>
     get_prompt ps t kwargs =
       Inl (ValueError (py ''Missing required argument for '' @ py t @ py '' prompt: '' @
                        quoted k))"
  by (simp add: get_prompt_def)

lemma get_prompt_source_unknown_type:
  "get_prompt (source_prompts lits) ''summary'' kwargs =
     Inl (ValueError (py ''Unknown prompt type: '' @ py ''summary'' @ py ''. Valid types: '' @
                      repr_list [''resume_bullets'', ''cover_letter'', ''ats_analysis'',
                                 ''linkedin_message'']))"
  by (simp add: get_prompt_def source_prompts_def)

lemma get_prompt_source_missing_field:
  "get_prompt (source_prompts lits) ''resume_bullets'' [''job_description'' \<mapsto> jd] =
     Inl (ValueError (py ''Missing required argument for '' @ py ''resume_bullets'' @
                      py '' prompt: '' @ quoted (py ''context'')))"
  by (simp add: get_prompt_def source_prompts_def RESUME_BULLET_PROMPT_def)

text \<open>
  In the four operations the call of \<open>get_prompt\<close> is inside the \<^verbatim>\<open>try\<close> block,
  whose handler catches every exception. With the dictionary of the source each
  operation passes a name of the dictionary and every field of its template, so the
  call returns the prompt (lemmas \<open>get_prompt_resume_bullets\<close>,
  \<open>get_prompt_cover_letter\<close>, \<open>get_prompt_ats_analysis\<close> and
  \<open>get_prompt_linkedin_message\<close>) and the handler is not reached through it. The
  lemma below is about a generator with any other dictionary: on one for which the
  call raises, the operation returns the placeholder text.
\<close>

lemma operations_return_prompt_errors:
  "(get_prompt (prompts g) ''resume_bullets''
      [''job_description'' \<mapsto> jd, ''context'' \<mapsto> fst (retrieve_context g jd 5 w),
       ''name'' \<mapsto> name] = Inl e1 \<longrightarrow>
    (\<exists>m. e1 = ValueError m) \<and>
    generate_resume_bullets g jd name w = (error_text e1, snd (retrieve_context g jd 5 w))) \<and>
   (get_prompt (prompts g) ''cover_letter''
      [''job_description'' \<mapsto> jd, ''company_name'' \<mapsto> company, ''role_title'' \<mapsto> role,
       ''context'' \<mapsto> fst (retrieve_context g jd 5 w)] = Inl e2 \<longrightarrow>
    (\<exists>m. e2 = ValueError m) \<and>
    generate_cover_letter g jd company role w = (error_text e2, snd (retrieve_context g jd 5 w))) \<and>
   (get_prompt (prompts g) ''ats_analysis''
      [''job_description'' \<mapsto> jd,
       ''resume_content'' \<mapsto> fst (ats_resume_content g resume w)] = Inl e3 \<longrightarrow>
    (\<exists>m. e3 = ValueError m) \<and>
    generate_ats_analysis g jd resume w = (error_text e3, snd (ats_resume_content g resume w))) \<and>
   (get_prompt (prompts g) ''linkedin_message''
      [''job_description'' \<mapsto> jd, ''company_name'' \<mapsto> company, ''role_title'' \<mapsto> role,
       ''achievement'' \<mapsto> achievement_of (fst (search_similar (pipeline g) jd 1 w))] = Inl e4 \<longrightarrow>
    (\<exists>m. e4 = ValueError m) \<and>
    generate_linkedin_message g jd company role w =
      (error_text e4, snd (search_similar (pipeline g) jd 1 w)))"
proof (intro conjI impI)
  assume "get_prompt (prompts g) ''resume_bullets''
      [''job_description'' \<mapsto> jd, ''context'' \<mapsto> fst (retrieve_context g jd 5 w),
       ''name'' \<mapsto> name] = Inl e1"
  then show "generate_resume_bullets g jd name w = (error_text e1, snd (retrieve_context g jd 5 w))"
    by (cases "retrieve_context g jd 5 w") (simp add: generate_resume_bullets_def)
next
  assume "get_prompt (prompts g) ''cover_letter''
      [''job_description'' \<mapsto> jd, ''company_name'' \<mapsto> company, ''role_title'' \<mapsto> role,
       ''context'' \<mapsto> fst (retrieve_context g jd 5 w)] = Inl e2"
  then show "generate_cover_letter g jd company role w = (error_text e2, snd (retrieve_context g jd 5 w))"
    by (cases "retrieve_context g jd 5 w") (simp add: generate_cover_letter_def)
next
  assume "get_prompt (prompts g) ''ats_analysis''
      [''job_description'' \<mapsto> jd,
       ''resume_content'' \<mapsto> fst (ats_resume_content g resume w)] = Inl e3"
  then show "generate_ats_analysis g jd resume w = (error_text e3, snd (ats_resume_content g resume w))"
    by (cases "ats_resume_content g resume w") (simp add: generate_ats_analysis_def)
next
  assume "get_prompt (prompts g) ''linkedin_message''
      [''job_description'' \<mapsto> jd, ''company_name'' \<mapsto> company, ''role_title'' \<mapsto> role,
       ''achievement'' \<mapsto> achievement_of (fst (search_similar (pipeline g) jd 1 w))] = Inl e4"
  then show "generate_linkedin_message g jd company role w =
      (error_text e4, snd (search_similar (pipeline g) jd 1 w))"
    by (cases "search_similar (pipeline g) jd 1 w") (simp add: generate_linkedin_message_def)
qed (erule get_prompt_error)+

end
